theory Spec2Isabelle
  imports Main "HOL-Library.Char_ord" "HOL-Library.List_Lexorder" "HOL-Library.AList"
    "HOL-Library.Word"
begin

section \<open>The world the stores run in\<close>

text \<open>
  Both stores of gomcp keep their state in one JSON file each and reach it only through
  \<^verbatim>\<open>os.ReadFile\<close>, \<^verbatim>\<open>os.WriteFile\<close>, \<^verbatim>\<open>os.Rename\<close>, \<^verbatim>\<open>os.Remove\<close> and
  \<^verbatim>\<open>encoding/json\<close>. Go strings are byte strings, so they are \<^typ>\<open>string\<close> here.

  A file's bytes are modelled by what \<^verbatim>\<open>json.Unmarshal\<close> makes of them in the state type
  \<open>'d\<close> of the store that owns the file: a file of length zero (\<open>Empty\<close>), bytes the decoder
  rejects (\<open>Malformed\<close>), or bytes that decode to a value (\<open>Doc\<close>). What
  \<^verbatim>\<open>json.Marshal\<close> writes is modelled for each state type where the type is declared: it
  is not always the value it was given, since strings that are not valid UTF-8 are rewritten.

  A path is absent (\<open>Missing\<close>), holds a file, or is \<open>Faulty\<close>: every operation on a
  faulty path fails with an error other than \<^verbatim>\<open>os.ErrNotExist\<close> (permission denied, a
  directory in the way, an I/O error). The world also logs every operation that is attempted,
  so that "does not touch the file system" is a statement about the log.
\<close>

type_synonym path = string

datatype 'd content = Empty | Malformed | Doc 'd

datatype 'd node = Missing | Faulty | File "'d content"

datatype event =
    EvRead path
  | EvWrite path
  | EvRename path path
  | EvRemove path
  | EvLock path
  | EvUnlock path
  | EvHttpGet string

datatype error =
    ErrNotExist
  | ErrIO
  | ErrSyntax
  | ErrNet
  | ErrStatus nat
  | Errorf string
  | Wrapf string error

record 'd world =
  nodes :: "path \<Rightarrow> 'd node"
  events :: "event list"

definition logged :: "event \<Rightarrow> 'd world \<Rightarrow> 'd world" where
  "logged e w = w\<lparr>events := events w @ [e]\<rparr>"

definition os_ReadFile :: "path \<Rightarrow> 'd world \<Rightarrow> (error + 'd content) \<times> 'd world" where
  "os_ReadFile p w =
     ((case nodes w p of
         Missing \<Rightarrow> Inl ErrNotExist
       | Faulty \<Rightarrow> Inl ErrIO
       | File c \<Rightarrow> Inr c),
      logged (EvRead p) w)"

definition os_WriteFile :: "path \<Rightarrow> 'd content \<Rightarrow> 'd world \<Rightarrow> error option \<times> 'd world" where
  "os_WriteFile p c w =
     (case nodes w p of
        Faulty \<Rightarrow> (Some ErrIO, logged (EvWrite p) w)
      | _ \<Rightarrow> (None, logged (EvWrite p) (w\<lparr>nodes := (nodes w)(p := File c)\<rparr>)))"

definition os_Rename :: "path \<Rightarrow> path \<Rightarrow> 'd world \<Rightarrow> error option \<times> 'd world" where
  "os_Rename old new w =
     (case nodes w old of
        Missing \<Rightarrow> (Some ErrNotExist, logged (EvRename old new) w)
      | Faulty \<Rightarrow> (Some ErrIO, logged (EvRename old new) w)
      | File c \<Rightarrow>
          (case nodes w new of
             Faulty \<Rightarrow> (Some ErrIO, logged (EvRename old new) w)
           | _ \<Rightarrow> (None, logged (EvRename old new)
                     (w\<lparr>nodes := (nodes w)(old := Missing, new := File c)\<rparr>))))"

definition os_Remove :: "path \<Rightarrow> 'd world \<Rightarrow> error option \<times> 'd world" where
  "os_Remove p w =
     (case nodes w p of
        Missing \<Rightarrow> (Some ErrNotExist, logged (EvRemove p) w)
      | Faulty \<Rightarrow> (Some ErrIO, logged (EvRemove p) w)
      | File c \<Rightarrow> (None, logged (EvRemove p) (w\<lparr>nodes := (nodes w)(p := Missing)\<rparr>)))"

definition json_Unmarshal :: "'d content \<Rightarrow> error + 'd" where
  "json_Unmarshal b = (case b of Empty \<Rightarrow> Inl ErrSyntax | Malformed \<Rightarrow> Inl ErrSyntax | Doc d \<Rightarrow> Inr d)"

text \<open>
  \<^verbatim>\<open>flock.Lock\<close> opens the lock file, creating it empty when it is absent, and takes the
  advisory lock; \<^verbatim>\<open>Unlock\<close> releases it and leaves the file. The model is sequential: a
  lock held by another process is outside it.
\<close>

definition flock_Lock :: "path \<Rightarrow> 'd world \<Rightarrow> error option \<times> 'd world" where
  "flock_Lock p w =
     (case nodes w p of
        Faulty \<Rightarrow> (Some ErrIO, logged (EvLock p) w)
      | Missing \<Rightarrow> (None, logged (EvLock p) (w\<lparr>nodes := (nodes w)(p := File Empty)\<rparr>))
      | File c \<Rightarrow> (None, logged (EvLock p) w))"

definition flock_Unlock :: "path \<Rightarrow> 'd world \<Rightarrow> 'd world" where
  "flock_Unlock p w = logged (EvUnlock p) w"


section \<open>UTF-8 as encoding/json sees it\<close>

text \<open>
  \<^verbatim>\<open>json.Marshal\<close> writes a string rune by rune (\<^verbatim>\<open>utf8.DecodeRuneInString\<close>): the
  bytes of a valid encoding are kept, and every byte at which no valid encoding starts is
  written as U+FFFD, one replacement per byte. A valid encoding is one byte below 0x80, or a
  lead byte 0xC2..0xDF, 0xE0..0xEF or 0xF0..0xF4 followed by one, two or three bytes, the
  first in the range the lead byte accepts and the others in 0x80..0xBF. The decoder replaces
  invalid bytes in the same way, so the strings of a decoded document are valid UTF-8.
\<close>

definition inRange :: "char \<Rightarrow> char \<Rightarrow> char \<Rightarrow> bool" where
  "inRange lo hi c \<longleftrightarrow> lo \<le> c \<and> c \<le> hi"

definition isCont :: "char \<Rightarrow> bool" where
  "isCont c \<longleftrightarrow> inRange (CHR 0x80) (CHR 0xBF) c"

text \<open>The number of bytes that follow a lead byte, 0 for a byte that is not one.\<close>

definition followers :: "char \<Rightarrow> nat" where
  "followers c =
     (if inRange (CHR 0xC2) (CHR 0xDF) c then 1
      else if inRange (CHR 0xE0) (CHR 0xEF) c then 2
      else if inRange (CHR 0xF0) (CHR 0xF4) c then 3
      else 0)"

text \<open>The range the lead byte accepts for the byte after it.\<close>

definition acceptLo :: "char \<Rightarrow> char" where
  "acceptLo c = (if c = CHR 0xE0 then CHR 0xA0 else if c = CHR 0xF0 then CHR 0x90 else CHR 0x80)"

definition acceptHi :: "char \<Rightarrow> char" where
  "acceptHi c = (if c = CHR 0xED then CHR 0x9F else if c = CHR 0xF4 then CHR 0x8F else CHR 0xBF)"

text \<open>The width of the valid encoding \<open>s\<close> starts with, 0 when it starts with none.\<close>

definition runeLen :: "string \<Rightarrow> nat" where
  "runeLen s =
     (case s of
        [] \<Rightarrow> 0
      | c # cs \<Rightarrow>
          if c < CHR 0x80 then 1
          else if followers c = 0 then 0
          else if followers c \<le> length cs \<and> inRange (acceptLo c) (acceptHi c) (hd cs) \<and>
                  list_all isCont (take (followers c - 1) (tl cs))
            then Suc (followers c)
          else 0)"

fun validUTF8 :: "string \<Rightarrow> bool" where
  "validUTF8 [] = True"
| "validUTF8 (c # cs) =
     (case runeLen (c # cs) of 0 \<Rightarrow> False | Suc n \<Rightarrow> validUTF8 (drop n cs))"

fun coerceUTF8 :: "string \<Rightarrow> string" where
  "coerceUTF8 [] = []"
| "coerceUTF8 (c # cs) =
     (case runeLen (c # cs) of
        0 \<Rightarrow> [CHR 0xEF, CHR 0xBF, CHR 0xBD] @ coerceUTF8 cs
      | Suc n \<Rightarrow> c # take n cs @ coerceUTF8 (drop n cs))"


section \<open>strings.TrimSpace and sort.Strings\<close>

text \<open>
  \<^verbatim>\<open>strings.TrimSpace\<close> removes the leading and then the trailing white-space runes
  (\<^verbatim>\<open>unicode.IsSpace\<close>) of a string. On the bytes of the string a rune is white space
  exactly when the bytes are the UTF-8 encoding of one of the code points U+0009..U+000D,
  U+0020, U+0085, U+00A0, U+1680, U+2000..U+200A, U+2028, U+2029, U+202F, U+205F, U+3000.
  \<^verbatim>\<open>sort.Strings\<close> sorts by byte-wise comparison, which is the lexicographic order of
  \<^typ>\<open>char list\<close>.
\<close>

definition spaceRunes :: "string list" where
  "spaceRunes =
    [[CHR 0x09], [CHR 0x0A], [CHR 0x0B], [CHR 0x0C], [CHR 0x0D], [CHR 0x20],
     [CHR 0xC2, CHR 0x85], [CHR 0xC2, CHR 0xA0],
     [CHR 0xE1, CHR 0x9A, CHR 0x80],
     [CHR 0xE2, CHR 0x80, CHR 0x80], [CHR 0xE2, CHR 0x80, CHR 0x81],
     [CHR 0xE2, CHR 0x80, CHR 0x82], [CHR 0xE2, CHR 0x80, CHR 0x83],
     [CHR 0xE2, CHR 0x80, CHR 0x84], [CHR 0xE2, CHR 0x80, CHR 0x85],
     [CHR 0xE2, CHR 0x80, CHR 0x86], [CHR 0xE2, CHR 0x80, CHR 0x87],
     [CHR 0xE2, CHR 0x80, CHR 0x88], [CHR 0xE2, CHR 0x80, CHR 0x89],
     [CHR 0xE2, CHR 0x80, CHR 0x8A],
     [CHR 0xE2, CHR 0x80, CHR 0xA8], [CHR 0xE2, CHR 0x80, CHR 0xA9],
     [CHR 0xE2, CHR 0x80, CHR 0xAF],
     [CHR 0xE2, CHR 0x81, CHR 0x9F],
     [CHR 0xE3, CHR 0x80, CHR 0x80]]"

text \<open>The width of the first of the runes \<open>rs\<close> that \<open>s\<close> starts with, 0 when there is none.\<close>

fun leadWidth :: "string list \<Rightarrow> string \<Rightarrow> nat" where
  "leadWidth [] s = 0"
| "leadWidth (r # rs) s = (if take (length r) s = r then length r else leadWidth rs s)"

fun trimLead :: "string list \<Rightarrow> string \<Rightarrow> string" where
  "trimLead rs [] = []"
| "trimLead rs (c # cs) =
     (case leadWidth rs (c # cs) of 0 \<Rightarrow> c # cs | Suc n \<Rightarrow> trimLead rs (drop n cs))"

definition TrimSpace :: "string \<Rightarrow> string" where
  "TrimSpace s = rev (trimLead (map rev spaceRunes) (rev (trimLead spaceRunes s)))"


section \<open>The tab pool (targetStore)\<close>

record targetState =
  Idle :: "string list"

text \<open>
  A \<^verbatim>\<open>targetStore\<close> is the path of its state file and the lock built on
  \<^verbatim>\<open>statePath + ".lock"\<close>; the in-process mutex has no part in a sequential model. A nil
  store pointer is \<open>None\<close>.
\<close>

record targetStore =
  path :: path
  lock :: path

text \<open>
  The store \<^verbatim>\<open>newTargetStore\<close> returns once it has computed \<^verbatim>\<open>statePath\<close> from the
  configuration directory and the sanitised key.
\<close>

definition newTargetStoreAt :: "path \<Rightarrow> targetStore" where
  "newTargetStoreAt statePath = \<lparr>path = statePath, lock = statePath @ ''.lock''\<rparr>"

type_synonym tabs = "targetState world"

text \<open>The loop of \<^verbatim>\<open>compact\<close>: \<open>seen\<close> is the Go map used as a set, \<open>idle\<close> the slice built.\<close>

fun compact_loop :: "string list \<Rightarrow> string set \<Rightarrow> string list \<Rightarrow> string list" where
  "compact_loop [] seen idle = idle"
| "compact_loop (raw # ids) seen idle =
     (let id = TrimSpace raw in
      if id = [] then compact_loop ids seen idle
      else if id \<in> seen then compact_loop ids seen idle
      else compact_loop ids (insert id seen) (idle @ [id]))"

definition compact :: "targetState \<Rightarrow> targetState" where
  "compact state =
     (if length (Idle state) = 0 then state
      else state\<lparr>Idle := sort (compact_loop (Idle state) {} [])\<rparr>)"

text \<open>
  \<^verbatim>\<open>json.Marshal\<close> of a \<^verbatim>\<open>targetState\<close>: the document that decodes to the idle
  sequence with every string written as above. It returns no error for this type.
\<close>

definition targetState_doc :: "targetState \<Rightarrow> targetState content" where
  "targetState_doc state = Doc (state\<lparr>Idle := map coerceUTF8 (Idle state)\<rparr>)"

definition json_Marshal_targetState :: "targetState \<Rightarrow> error + targetState content" where
  "json_Marshal_targetState state = Inr (targetState_doc state)"

definition targetStore_read :: "targetStore \<Rightarrow> tabs \<Rightarrow> (targetState \<times> error option) \<times> tabs" where
  "targetStore_read s w =
     (case os_ReadFile (path s) w of
        (Inl err, w1) \<Rightarrow>
          if err = ErrNotExist then ((\<lparr>Idle = []\<rparr>, None), w1)
          else ((\<lparr>Idle = []\<rparr>, Some (Wrapf ''read tab state'' err)), w1)
      | (Inr b, w1) \<Rightarrow>
          (case json_Unmarshal b of
             Inl err \<Rightarrow> ((\<lparr>Idle = []\<rparr>, Some (Wrapf ''decode tab state'' err)), w1)
           | Inr state \<Rightarrow> ((compact state, None), w1)))"

definition targetStore_write :: "targetStore \<Rightarrow> targetState \<Rightarrow> tabs \<Rightarrow> error option \<times> tabs" where
  "targetStore_write s state w =
     (case json_Marshal_targetState state of
        Inl err \<Rightarrow> (Some (Wrapf ''encode tab state'' err), w)
      | Inr data \<Rightarrow>
          (let tmp = path s @ ''.tmp'' in
           case os_WriteFile tmp data w of
             (Some err, w1) \<Rightarrow> (Some (Wrapf ''write tab state'' err), w1)
           | (None, w1) \<Rightarrow> os_Rename tmp (path s) w1))"

text \<open>
  \<^verbatim>\<open>Checkout\<close> and \<^verbatim>\<open>Checkin\<close> return on several paths; the deferred
  \<^verbatim>\<open>s.lock.Unlock()\<close> runs on each of them once the lock has been taken.
\<close>

definition targetStore_Checkout :: "targetStore option \<Rightarrow> tabs \<Rightarrow> (string \<times> error option) \<times> tabs" where
  "targetStore_Checkout sp w =
     (case sp of
        None \<Rightarrow> (('''', None), w)
      | Some s \<Rightarrow>
          (case flock_Lock (lock s) w of
             (Some err, w1) \<Rightarrow> (('''', Some (Wrapf ''acquire tab lock'' err)), w1)
           | (None, w1) \<Rightarrow>
               (case targetStore_read s w1 of
                  ((state, Some err), w2) \<Rightarrow> (('''', Some err), flock_Unlock (lock s) w2)
                | ((state, None), w2) \<Rightarrow>
                    if length (Idle state) = 0 then (('''', None), flock_Unlock (lock s) w2)
                    else
                      (let id = hd (Idle state);
                           state' = state\<lparr>Idle := [] @ tl (Idle state)\<rparr>
                       in case targetStore_write s state' w2 of
                            (Some err, w3) \<Rightarrow> (('''', Some err), flock_Unlock (lock s) w3)
                          | (None, w3) \<Rightarrow> ((id, None), flock_Unlock (lock s) w3)))))"

definition targetStore_Checkin :: "targetStore option \<Rightarrow> string \<Rightarrow> tabs \<Rightarrow> error option \<times> tabs" where
  "targetStore_Checkin sp tid w =
     (case sp of
        None \<Rightarrow> (None, w)
      | Some s \<Rightarrow>
          if tid = '''' then (None, w)
          else
            (case flock_Lock (lock s) w of
               (Some err, w1) \<Rightarrow> (Some (Wrapf ''acquire tab lock'' err), w1)
             | (None, w1) \<Rightarrow>
                 (case targetStore_read s w1 of
                    ((state, Some err), w2) \<Rightarrow> (Some err, flock_Unlock (lock s) w2)
                  | ((state, None), w2) \<Rightarrow>
                      if tid \<in> set (Idle state) then (None, flock_Unlock (lock s) w2)
                      else
                        (case targetStore_write s (compact (state\<lparr>Idle := Idle state @ [tid]\<rparr>)) w2 of
                           (err, w3) \<Rightarrow> (err, flock_Unlock (lock s) w3)))))"

definition targetStore_Clear :: "targetStore option \<Rightarrow> tabs \<Rightarrow> error option \<times> tabs" where
  "targetStore_Clear sp w =
     (case sp of
        None \<Rightarrow> (None, w)
      | Some s \<Rightarrow>
          (case os_Remove (path s) w of
             (Some err, w1) \<Rightarrow>
               if err \<noteq> ErrNotExist then (Some (Wrapf ''remove tab state'' err), w1)
               else (None, w1)
           | (None, w1) \<Rightarrow> (None, w1)))"

text \<open>A sequence of check-ins; it stops at the first one that returns an error.\<close>

fun checkins :: "targetStore option \<Rightarrow> string list \<Rightarrow> tabs \<Rightarrow> error option \<times> tabs" where
  "checkins sp [] w = (None, w)"
| "checkins sp (x # xs) w =
     (case targetStore_Checkin sp x w of
        (Some err, w1) \<Rightarrow> (Some err, w1)
      | (None, w1) \<Rightarrow> checkins sp xs w1)"

text \<open>The idle sequence a state file holds, as persisted (before any normalisation).\<close>

definition persisted :: "targetStore \<Rightarrow> tabs \<Rightarrow> string list option" where
  "persisted s w = (case nodes w (path s) of File (Doc st) \<Rightarrow> Some (Idle st) | _ \<Rightarrow> None)"

definition normalised :: "string list \<Rightarrow> bool" where
  "normalised xs \<longleftrightarrow> sorted xs \<and> distinct xs \<and> (\<forall>x\<in>set xs. x \<noteq> [] \<and> TrimSpace x = x)"

text \<open>The idle sequence a store loads from its state file, when \<^verbatim>\<open>read\<close> returns no error.\<close>

definition loaded :: "targetStore \<Rightarrow> tabs \<Rightarrow> string list option" where
  "loaded s w =
     (case targetStore_read s w of
        ((state, None), w1) \<Rightarrow> Some (Idle state)
      | ((state, Some err), w1) \<Rightarrow> None)"

definition emptyWorld :: "'d world" where
  "emptyWorld = \<lparr>nodes = (\<lambda>p. Missing), events = []\<rparr>"

definition withFile :: "path \<Rightarrow> 'd \<Rightarrow> 'd world \<Rightarrow> 'd world" where
  "withFile p d w = w\<lparr>nodes := (nodes w)(p := File (Doc d))\<rparr>"


section \<open>Interrupted writes\<close>

text \<open>
  Both stores write with \<^verbatim>\<open>os.WriteFile(tmp, data)\<close> followed by
  \<^verbatim>\<open>os.Rename(tmp, path)\<close>. \<^verbatim>\<open>os.WriteFile\<close> is not atomic: it truncates the file and
  then writes the bytes, so a process killed inside it leaves the file empty or holding a proper
  prefix of the encoding, which is not a JSON value. \<^verbatim>\<open>os.Rename\<close> is atomic. The list
  below holds the file-system states the sequence passes through, in order, the first being
  the state before the write and the last the state after it; an interruption leaves one of
  them behind.
\<close>

definition write_states :: "path \<Rightarrow> path \<Rightarrow> 'd content \<Rightarrow> 'd world \<Rightarrow> (path \<Rightarrow> 'd node) list" where
  "write_states tmp dest data w =
     (case nodes w tmp of
        Faulty \<Rightarrow> [nodes w]
      | _ \<Rightarrow>
          [nodes w,
           (nodes w)(tmp := File Empty),
           (nodes w)(tmp := File Malformed),
           (nodes w)(tmp := File data)]
          @ (case nodes w dest of
               Faulty \<Rightarrow> []
             | _ \<Rightarrow> [(nodes w)(tmp := Missing, dest := File data)]))"


section \<open>The endpoint cache (cdpEndpointStore)\<close>

text \<open>
  \<^verbatim>\<open>Entries\<close> is a Go map, kept here as an association list without repeated keys
  (\<open>map_of\<close> looks a key up, \<open>AList.update\<close> stores a value), because the order in which
  \<^verbatim>\<open>json.Marshal\<close> writes the keys decides which entry survives when two keys are written
  alike. A nil map reads like the empty one, and \<^verbatim>\<open>read\<close> replaces a nil map by an empty
  one before anything is stored in it, so both are the empty list.
\<close>

record cdpEndpointState =
  Entries :: "(string \<times> string) list"

record cdpEndpointStore =
  cpath :: path

type_synonym cache = "cdpEndpointState world"

text \<open>
  \<^verbatim>\<open>json.Marshal\<close> of a \<^verbatim>\<open>cdpEndpointState\<close> writes the keys of the map in sorted
  order, every key and value as above; a decoder reading the object back stores the members
  in that order, a later member replacing an earlier one with the same key. It returns no
  error for this type.
\<close>

definition cdpEndpointState_doc :: "cdpEndpointState \<Rightarrow> cdpEndpointState content" where
  "cdpEndpointState_doc state =
     Doc (state\<lparr>Entries :=
       foldl (\<lambda>acc k. AList.update (coerceUTF8 k) (coerceUTF8 (the (map_of (Entries state) k))) acc)
         [] (sort (remdups (map fst (Entries state))))\<rparr>)"

definition json_Marshal_cdpEndpointState ::
    "cdpEndpointState \<Rightarrow> error + cdpEndpointState content" where
  "json_Marshal_cdpEndpointState state = Inr (cdpEndpointState_doc state)"

definition cdpEndpointStore_read ::
    "cdpEndpointStore \<Rightarrow> cache \<Rightarrow> (cdpEndpointState \<times> error option) \<times> cache" where
  "cdpEndpointStore_read s w =
     (case os_ReadFile (cpath s) w of
        (Inl err, w1) \<Rightarrow>
          if err = ErrNotExist then ((\<lparr>Entries = []\<rparr>, None), w1)
          else ((\<lparr>Entries = []\<rparr>, Some err), w1)
      | (Inr b, w1) \<Rightarrow>
          (case b of
             Empty \<Rightarrow> ((\<lparr>Entries = []\<rparr>, None), w1)
           | _ \<Rightarrow>
              (case json_Unmarshal b of
                 Inl err \<Rightarrow> ((\<lparr>Entries = []\<rparr>, Some err), w1)
               | Inr state \<Rightarrow> ((state, None), w1))))"

definition cdpEndpointStore_write ::
    "cdpEndpointStore \<Rightarrow> cdpEndpointState \<Rightarrow> cache \<Rightarrow> error option \<times> cache" where
  "cdpEndpointStore_write s state w =
     (case json_Marshal_cdpEndpointState state of
        Inl err \<Rightarrow> (Some err, w)
      | Inr data \<Rightarrow>
          (let tmp = cpath s @ ''.tmp'' in
           case os_WriteFile tmp data w of
             (Some err, w1) \<Rightarrow> (Some err, w1)
           | (None, w1) \<Rightarrow> os_Rename tmp (cpath s) w1))"

definition cdpEndpointStore_Get ::
    "cdpEndpointStore option \<Rightarrow> string \<Rightarrow> cache \<Rightarrow> (string \<times> bool \<times> error option) \<times> cache" where
  "cdpEndpointStore_Get sp host w =
     (case sp of
        None \<Rightarrow> (('''', False, None), w)
      | Some s \<Rightarrow>
          (case cdpEndpointStore_read s w of
             ((state, Some err), w1) \<Rightarrow> (('''', False, Some err), w1)
           | ((state, None), w1) \<Rightarrow>
               (case map_of (Entries state) host of
                  None \<Rightarrow> (('''', False, None), w1)
                | Some val \<Rightarrow> ((val, True, None), w1))))"

definition cdpEndpointStore_Remember ::
    "cdpEndpointStore option \<Rightarrow> string \<Rightarrow> string \<Rightarrow> cache \<Rightarrow> error option \<times> cache" where
  "cdpEndpointStore_Remember sp host wsURL w =
     (case sp of
        None \<Rightarrow> (None, w)
      | Some s \<Rightarrow>
          if host = '''' \<or> wsURL = '''' then (None, w)
          else
            (case cdpEndpointStore_read s w of
               ((state, Some err), w1) \<Rightarrow> (Some err, w1)
             | ((state, None), w1) \<Rightarrow>
                 cdpEndpointStore_write s (state\<lparr>Entries := AList.update host wsURL (Entries state)\<rparr>) w1))"

section \<open>Endpoint resolution (resolveCDPEndpoint)\<close>

subsection \<open>The standard library the resolution calls\<close>

definition HasPrefix :: "string \<Rightarrow> string \<Rightarrow> bool" where
  "HasPrefix s pre = (take (length pre) s = pre)"

fun Contains :: "string \<Rightarrow> string \<Rightarrow> bool" where
  "Contains [] sub = (sub = [])"
| "Contains (c # cs) sub = (take (length sub) (c # cs) = sub \<or> Contains cs sub)"

fun IndexByte :: "string \<Rightarrow> char \<Rightarrow> nat option" where
  "IndexByte [] c = None"
| "IndexByte (x # xs) c = (if x = c then Some 0 else map_option Suc (IndexByte xs c))"

definition LastIndexByte :: "string \<Rightarrow> char \<Rightarrow> nat option" where
  "LastIndexByte s c =
     (case IndexByte (rev s) c of None \<Rightarrow> None | Some k \<Rightarrow> Some (length s - 1 - k))"

text \<open>
  \<^verbatim>\<open>net.SplitHostPort\<close> and \<^verbatim>\<open>net.JoinHostPort\<close>, branch by branch. The resolution
  uses only whether \<^verbatim>\<open>SplitHostPort\<close> returns an error.
\<close>

definition SplitHostPort :: "string \<Rightarrow> error + (string \<times> string)" where
  "SplitHostPort hostport =
     (case LastIndexByte hostport (CHR '':'') of
        None \<Rightarrow> Inl (Errorf ''missing port in address'')
      | Some i \<Rightarrow>
          if hd hostport = CHR ''['' then
            (case IndexByte hostport (CHR '']'') of
               None \<Rightarrow> Inl (Errorf ''missing ] in address'')
             | Some e \<Rightarrow>
                 if e + 1 = length hostport then Inl (Errorf ''missing port in address'')
                 else if e + 1 = i then
                   (if IndexByte (drop 1 hostport) (CHR ''['') \<noteq> None
                      then Inl (Errorf ''unexpected [ in address'')
                    else if IndexByte (drop (e + 1) hostport) (CHR '']'') \<noteq> None
                      then Inl (Errorf ''unexpected ] in address'')
                    else Inr (take (e - 1) (drop 1 hostport), drop (i + 1) hostport))
                 else if hostport ! (e + 1) = CHR '':''
                   then Inl (Errorf ''too many colons in address'')
                 else Inl (Errorf ''missing port in address''))
          else
            (if IndexByte (take i hostport) (CHR '':'') \<noteq> None
               then Inl (Errorf ''too many colons in address'')
             else if IndexByte hostport (CHR ''['') \<noteq> None
               then Inl (Errorf ''unexpected [ in address'')
             else if IndexByte hostport (CHR '']'') \<noteq> None
               then Inl (Errorf ''unexpected ] in address'')
             else Inr (take i hostport, drop (i + 1) hostport)))"

definition JoinHostPort :: "string \<Rightarrow> string \<Rightarrow> string" where
  "JoinHostPort host port =
     (if IndexByte host (CHR '':'') \<noteq> None then ''['' @ host @ '']:'' @ port
      else host @ '':'' @ port)"

text \<open>
  \<^verbatim>\<open>net/url\<close> and \<^verbatim>\<open>net/http\<close> are not part of the repository. The resolution reads the
  fields \<^verbatim>\<open>Scheme\<close>, \<^verbatim>\<open>Host\<close> and \<^verbatim>\<open>Path\<close> of a parsed URL, assigns \<^verbatim>\<open>Host\<close>, and
  calls \<^verbatim>\<open>url.Parse\<close>, \<^verbatim>\<open>URL.String\<close> and \<^verbatim>\<open>http.NewRequestWithContext\<close>; these three
  are parameters of the model, over a URL record that may carry further fields. The network
  is a parameter as well: what a GET of an endpoint is answered with. A body is modelled by
  what the JSON decoder makes of it: undecodable, or the value of its
  \<^verbatim>\<open>webSocketDebuggerUrl\<close> field, empty when the field is absent.
\<close>

record URL =
  Scheme :: string
  Opaque :: string
  Host :: string
  Path :: string
  OmitHost :: bool

record 'x stdlib =
  url_Parse :: "string \<Rightarrow> error + 'x URL_scheme"
  URL_String :: "'x URL_scheme \<Rightarrow> string"
  http_NewRequest :: "string \<Rightarrow> error option"

datatype http_body = BadJSON | Payload string

datatype http_reply = NoReply error | Reply nat http_body

type_synonym network = "string \<Rightarrow> http_reply"

subsection \<open>The functions of the repository\<close>

definition fetchWebsocketDebuggerURL ::
    "'x stdlib \<Rightarrow> network \<Rightarrow> string \<Rightarrow> string \<Rightarrow> cache \<Rightarrow> (string \<times> error option) \<times> cache" where
  "fetchWebsocketDebuggerURL lib net scheme host w =
     (let httpScheme = (if scheme = ''https'' \<or> scheme = ''wss'' then ''https'' else ''http'');
          endpoint = httpScheme @ ''://'' @ host @ ''/json/version''
      in case http_NewRequest lib endpoint of
           Some err \<Rightarrow> (('''', Some err), w)
         | None \<Rightarrow>
             (case net endpoint of
                NoReply err \<Rightarrow> (('''', Some err), logged (EvHttpGet endpoint) w)
              | Reply status body \<Rightarrow>
                  if status \<noteq> 200 then (('''', Some (ErrStatus status)), logged (EvHttpGet endpoint) w)
                  else
                    (case body of
                       BadJSON \<Rightarrow> (('''', Some ErrSyntax), logged (EvHttpGet endpoint) w)
                     | Payload ws \<Rightarrow>
                         if ws = '''' then
                           (('''', Some (Errorf ''empty webSocketDebuggerUrl'')),
                            logged (EvHttpGet endpoint) w)
                         else ((ws, None), logged (EvHttpGet endpoint) w))))"

text \<open>Lines 101 to 107 of the resolution: the default address and the scheme prefix.\<close>

definition cdpNorm :: "string \<Rightarrow> string" where
  "cdpNorm raw =
     (let norm = (if raw = '''' then ''ws://127.0.0.1:9222'' else raw)
      in if \<not> Contains norm ''://'' then ''ws://'' @ norm else norm)"

text \<open>Lines 115 to 119: the default port, written back into the URL.\<close>

definition withDefaultPort :: "'x URL_scheme \<Rightarrow> 'x URL_scheme" where
  "withDefaultPort u =
     (case SplitHostPort (Host u) of
        Inl err \<Rightarrow> u\<lparr>Host := JoinHostPort (Host u) ''9222''\<rparr>
      | Inr hp \<Rightarrow> u)"

text \<open>
  Lines 130 to 139: the probe, and the store of its answer. A failure to store is only
  reported with \<^verbatim>\<open>slog.Warn\<close>, as is a failure to read the cache; the log output is not
  part of the model.
\<close>

definition probeAndRemember ::
    "'x stdlib \<Rightarrow> network \<Rightarrow> 'x URL_scheme \<Rightarrow> cdpEndpointStore option \<Rightarrow> cache
       \<Rightarrow> (string \<times> string \<times> error option) \<times> cache" where
  "probeAndRemember lib net u store w =
     (case fetchWebsocketDebuggerURL lib net (Scheme u) (Host u) w of
        ((wsURL, Some err), w1) \<Rightarrow> ((URL_String lib u, Host u, Some err), w1)
      | ((wsURL, None), w1) \<Rightarrow>
          (case store of
             None \<Rightarrow> ((wsURL, Host u, None), w1)
           | Some s \<Rightarrow>
               (case cdpEndpointStore_Remember (Some s) (Host u) wsURL w1 of
                  (err, w2) \<Rightarrow> ((wsURL, Host u, None), w2))))"

definition resolveCDPEndpoint ::
    "'x stdlib \<Rightarrow> network \<Rightarrow> string \<Rightarrow> cdpEndpointStore option \<Rightarrow> cache
       \<Rightarrow> (string \<times> string \<times> error option) \<times> cache" where
  "resolveCDPEndpoint lib net raw store w =
     (case url_Parse lib (cdpNorm raw) of
        Inl err \<Rightarrow> (('''', '''', Some (Wrapf ''parse cdp url'' err)), w)
      | Inr u0 \<Rightarrow>
          if Host u0 = '''' then
            (('''', '''', Some (Errorf (''missing host in cdp url: '' @ raw))), w)
          else
            (let u = withDefaultPort u0; host = Host u
             in if Contains (Path u) ''/devtools/browser/'' then ((URL_String lib u, host, None), w)
                else
                  (case store of
                     None \<Rightarrow> probeAndRemember lib net u store w
                   | Some s \<Rightarrow>
                       (case cdpEndpointStore_Get (Some s) host w of
                          ((cached, ok, err), w1) \<Rightarrow>
                            if err = None \<and> ok then ((cached, host, None), w1)
                            else probeAndRemember lib net u store w1))))"

subsection \<open>Conditions the statements about the resolution use\<close>

text \<open>
  The resolution finds the host in its cache: the condition under which it returns the cached
  endpoint and makes no probe.
\<close>

definition cacheHit :: "cdpEndpointStore option \<Rightarrow> string \<Rightarrow> cache \<Rightarrow> bool" where
  "cacheHit store host w =
     (case store of
        None \<Rightarrow> False
      | Some s \<Rightarrow>
          (case cdpEndpointStore_Get (Some s) host w of
             ((cached, ok, err), w1) \<Rightarrow> err = None \<and> ok))"

text \<open>
  The failures of the probe that the specification lists: the request cannot be made or gets
  no answer, the status is not 200, or the body has no \<^verbatim>\<open>webSocketDebuggerUrl\<close> (it does
  not decode, or the field is absent or empty).
\<close>

definition probeFails :: "'x stdlib \<Rightarrow> network \<Rightarrow> string \<Rightarrow> string \<Rightarrow> bool" where
  "probeFails lib net scheme host =
     (let endpoint = (if scheme = ''https'' \<or> scheme = ''wss'' then ''https'' else ''http'')
                       @ ''://'' @ host @ ''/json/version''
      in http_NewRequest lib endpoint \<noteq> None \<or>
         (case net endpoint of
            NoReply err \<Rightarrow> True
          | Reply status body \<Rightarrow>
              status \<noteq> 200 \<or> (case body of BadJSON \<Rightarrow> True | Payload ws \<Rightarrow> ws = '''')))"

subsection \<open>net/url on plain URLs\<close>

text \<open>
  For the worked examples the library parameter is instantiated with a model of
  \<^verbatim>\<open>url.Parse\<close> and \<^verbatim>\<open>URL.String\<close> on plain URLs: strings of ASCII letters, digits and
  the bytes \<open>- . _ ~ / :\<close>, which have no query, fragment, user information, percent
  escape or bracketed IP literal. On them \<^verbatim>\<open>Parse\<close> is \<^verbatim>\<open>getScheme\<close>, the split of
  the authority from the path and the check of the port; any other input is outside the model
  and is answered with an error of its own. \<^verbatim>\<open>String\<close> is modelled for URLs without
  user information, query, fragment and \<^verbatim>\<open>RawPath\<close>, which is what \<^verbatim>\<open>Parse\<close>
  yields on plain URLs. The theorems about the resolution hold for every library, not only
  for this one.
\<close>

definition isLetter :: "char \<Rightarrow> bool" where
  "isLetter c \<longleftrightarrow> inRange (CHR ''a'') (CHR ''z'') c \<or> inRange (CHR ''A'') (CHR ''Z'') c"

definition isDigit :: "char \<Rightarrow> bool" where
  "isDigit c \<longleftrightarrow> inRange (CHR ''0'') (CHR ''9'') c"

definition plainByte :: "char \<Rightarrow> bool" where
  "plainByte c \<longleftrightarrow> isLetter c \<or> isDigit c \<or> c \<in> set ''-._~/:''"

definition ToLower :: "string \<Rightarrow> string" where
  "ToLower s =
     map (\<lambda>c. if inRange (CHR ''A'') (CHR ''Z'') c then char_of (of_char c + (32::nat)) else c) s"

fun getScheme_loop :: "string \<Rightarrow> string \<Rightarrow> string \<Rightarrow> error + (string \<times> string)" where
  "getScheme_loop rawURL pre [] = Inr ('''', rawURL)"
| "getScheme_loop rawURL pre (c # cs) =
     (if isLetter c then getScheme_loop rawURL (pre @ [c]) cs
      else if isDigit c \<or> c = CHR ''+'' \<or> c = CHR ''-'' \<or> c = CHR ''.'' then
        (if pre = [] then Inr ('''', rawURL) else getScheme_loop rawURL (pre @ [c]) cs)
      else if c = CHR '':'' then
        (if pre = [] then Inl (Errorf ''missing protocol scheme'') else Inr (pre, cs))
      else Inr ('''', rawURL))"

definition getScheme :: "string \<Rightarrow> error + (string \<times> string)" where
  "getScheme rawURL = getScheme_loop rawURL [] rawURL"

definition validOptionalPort :: "string \<Rightarrow> bool" where
  "validOptionalPort port =
     (port = '''' \<or> (hd port = CHR '':'' \<and> list_all isDigit (tl port)))"

definition parseHost :: "string \<Rightarrow> error + string" where
  "parseHost host =
     (case LastIndexByte host (CHR '':'') of
        None \<Rightarrow> Inr host
      | Some i \<Rightarrow>
          if \<not> validOptionalPort (drop i host) then Inl (Errorf ''invalid port after host'')
          else Inr host)"

definition plain_Parse :: "string \<Rightarrow> error + URL" where
  "plain_Parse rawURL =
     (if \<not> list_all plainByte rawURL then Inl (Errorf ''URL outside the plain fragment'')
      else
        (case getScheme rawURL of
           Inl err \<Rightarrow> Inl (Wrapf ''parse'' err)
         | Inr (scheme0, rest) \<Rightarrow>
             (let scheme = ToLower scheme0 in
              if \<not> HasPrefix rest ''/'' \<and> scheme \<noteq> '''' then
                Inr \<lparr>Scheme = scheme, Opaque = rest, Host = '''', Path = '''', OmitHost = False\<rparr>
              else if \<not> HasPrefix rest ''/'' \<and> Contains (takeWhile (\<lambda>c. c \<noteq> CHR ''/'') rest) '':'' then
                Inl (Wrapf ''parse'' (Errorf ''first path segment in URL cannot contain colon''))
              else if (scheme \<noteq> '''' \<or> \<not> HasPrefix rest ''///'') \<and> HasPrefix rest ''//'' then
                (let authority = takeWhile (\<lambda>c. c \<noteq> CHR ''/'') (drop 2 rest);
                     rest' = dropWhile (\<lambda>c. c \<noteq> CHR ''/'') (drop 2 rest)
                 in case parseHost authority of
                      Inl err \<Rightarrow> Inl (Wrapf ''parse'' err)
                    | Inr host \<Rightarrow>
                        Inr \<lparr>Scheme = scheme, Opaque = '''', Host = host, Path = rest',
                             OmitHost = False\<rparr>)
              else
                Inr \<lparr>Scheme = scheme, Opaque = '''', Host = '''', Path = rest,
                     OmitHost = (scheme \<noteq> '''' \<and> HasPrefix rest ''/'')\<rparr>)))"

datatype encoding = encodePath | encodeHost

definition shouldEscape :: "char \<Rightarrow> encoding \<Rightarrow> bool" where
  "shouldEscape c mode =
     (if isLetter c \<or> isDigit c then False
      else if mode = encodeHost \<and>
              c \<in> set (''!$&()*+,;=:[]<>'' @ [CHR 0x27, CHR 0x22]) then False
      else if c \<in> set ''-_.~'' then False
      else if c \<in> set ''$&+,/:;=?@'' then
        (case mode of encodePath \<Rightarrow> c = CHR ''?'' | encodeHost \<Rightarrow> True)
      else True)"

definition upperhex :: "nat \<Rightarrow> char" where
  "upperhex n = ''0123456789ABCDEF'' ! (n mod 16)"

definition escape :: "string \<Rightarrow> encoding \<Rightarrow> string" where
  "escape s mode =
     concat (map (\<lambda>c. if shouldEscape c mode
                       then [CHR ''%'', upperhex (of_char c div 16), upperhex (of_char c mod 16)]
                       else [c]) s)"

definition plain_String :: "URL \<Rightarrow> string" where
  "plain_String u =
     (let buf = (if Scheme u \<noteq> '''' then Scheme u @ '':'' else '''') in
      if Opaque u \<noteq> '''' then buf @ Opaque u
      else
        (let buf = buf @
               (if Scheme u \<noteq> '''' \<or> Host u \<noteq> '''' then
                  (if OmitHost u \<and> Host u = '''' then ''''
                   else (if Host u \<noteq> '''' \<or> Path u \<noteq> '''' then ''//'' else '''')
                        @ (if Host u \<noteq> '''' then escape (Host u) encodeHost else ''''))
                else '''');
             path = (if Path u = ''*'' then ''*'' else escape (Path u) encodePath);
             buf = buf @ (if path \<noteq> '''' \<and> hd path \<noteq> CHR ''/'' \<and> Host u \<noteq> '''' then ''/'' else '''');
             buf = buf @ (if buf = '''' \<and> Contains (takeWhile (\<lambda>c. c \<noteq> CHR ''/'') path) '':''
                          then ''./'' else '''')
         in buf @ path))"

text \<open>A host name or IPv4 address without a port: letters, digits, dots and hyphens.\<close>

definition hostName :: "string \<Rightarrow> bool" where
  "hostName h \<longleftrightarrow>
     h \<noteq> '''' \<and> list_all (\<lambda>c. isLetter c \<or> isDigit c \<or> c = CHR ''.'' \<or> c = CHR ''-'') h"

text \<open>A path of letters, digits and the bytes \<open>- . _ ~ /\<close> that is empty or starts with a slash.\<close>

definition plainPath :: "string \<Rightarrow> bool" where
  "plainPath p \<longleftrightarrow>
     (p = '''' \<or> hd p = CHR ''/'') \<and>
     list_all (\<lambda>c. isLetter c \<or> isDigit c \<or> c \<in> set ''-._~/'') p"

definition plainlib :: "unit stdlib" where
  "plainlib =
     \<lparr>url_Parse = plain_Parse,
      URL_String = plain_String,
      http_NewRequest = (\<lambda>endpoint. case plain_Parse endpoint of Inl err \<Rightarrow> Some err | Inr u \<Rightarrow> None)\<rparr>"


section \<open>The session registry\<close>

text \<open>
  A \<^verbatim>\<open>Session\<close> is created once and its fields are never assigned again, so a
  \<^verbatim>\<open>*Session\<close> is modelled by the record itself (the field \<^verbatim>\<open>id\<close> is \<open>sid\<close> here);
  \<^verbatim>\<open>creq\<close> names the channel made for it. The registry is the map \<^verbatim>\<open>ss.s\<close> (\<open>ss_s\<close>); the state
  of every channel lives beside it, so that what an operation does to channels can be stated.
  Closing a closed channel panics.
\<close>

type_synonym SessionId = "128 word"

type_synonym chan = nat

datatype chan_state = Open | Closed

record Session =
  sid :: SessionId
  creq :: chan
  createdAt :: nat

record Sessions =
  ss_s :: "SessionId \<rightharpoonup> Session"
  chans :: "chan \<Rightarrow> chan_state"

definition Sessions_Add :: "Session \<Rightarrow> Sessions \<Rightarrow> Sessions" where
  "Sessions_Add x ss = ss\<lparr>ss_s := (ss_s ss)(sid x \<mapsto> x)\<rparr>"

definition Sessions_Get :: "SessionId \<Rightarrow> Sessions \<Rightarrow> Session option \<times> bool" where
  "Sessions_Get i ss = (case ss_s ss i of None \<Rightarrow> (None, False) | Some x \<Rightarrow> (Some x, True))"

definition Sessions_Remove :: "SessionId \<Rightarrow> Sessions \<Rightarrow> Sessions" where
  "Sessions_Remove i ss = ss\<lparr>ss_s := (ss_s ss)(i := None)\<rparr>"

datatype panic = CloseOfClosedChannel

definition Session_Close :: "Session \<Rightarrow> Sessions \<Rightarrow> panic + Sessions" where
  "Session_Close x ss =
     (case chans ss (creq x) of
        Closed \<Rightarrow> Inl CloseOfClosedChannel
      | Open \<Rightarrow> Inr (ss\<lparr>chans := (chans ss)(creq x := Closed)\<rparr>))"

section \<open>Worked examples\<close>

text \<open>The pool of the specification's example: the state file holds \<open>t2, t1, t1\<close>.\<close>

definition tabsStore :: targetStore where
  "tabsStore = newTargetStoreAt ''tabs.json''"

definition tabsExample :: tabs where
  "tabsExample = withFile ''tabs.json'' \<lparr>Idle = [''t2'', ''t1'', ''t1'']\<rparr> emptyWorld"

text \<open>A pool whose state file holds one blank identifier.\<close>

definition blankExample :: tabs where
  "blankExample = withFile ''tabs.json'' \<lparr>Idle = ['' '']\<rparr> emptyWorld"

text \<open>An endpoint cache at the file name \<^verbatim>\<open>newCDPEndpointStore\<close> uses.\<close>

definition cacheStore :: cdpEndpointStore where
  "cacheStore = \<lparr>cpath = ''cdp-endpoints.json''\<rparr>"


definition deadNet :: network where
  "deadNet endpoint = NoReply ErrNet"


chapter \<open>Verification\<close>

section \<open>Facts about the world\<close>

lemma nodes_logged: "nodes (logged e w) = nodes w"
  by (simp add: logged_def)

lemma events_logged: "events (logged e w) = events w @ [e]"
  by (simp add: logged_def)

lemma lock_nodes:
  "flock_Lock l w = (r, w1) \<Longrightarrow> p \<noteq> l \<Longrightarrow> nodes w1 p = nodes w p"
  by (auto simp: flock_Lock_def nodes_logged split: node.splits)

lemma nodes_unlock: "nodes (flock_Unlock l w) = nodes w"
  by (simp add: flock_Unlock_def nodes_logged)

section \<open>TrimSpace and compact\<close>

lemma leadWidth_zero_iff:
  "[] \<notin> set rs \<Longrightarrow> leadWidth rs s = 0 \<longleftrightarrow> (\<forall>r\<in>set rs. take (length r) s \<noteq> r)"
  by (induction rs) auto

lemma trimLead_unchanged: "leadWidth rs s = 0 \<Longrightarrow> trimLead rs s = s"
  by (cases s) auto

lemma trimLead_drop: "\<exists>k. trimLead rs s = drop k s"
proof (induction rs s rule: trimLead.induct)
  case (1 rs)
  then show ?case by simp
next
  case (2 rs c cs)
  show ?case
  proof (cases "leadWidth rs (c # cs)")
    case 0
    then have "trimLead rs (c # cs) = drop 0 (c # cs)" by simp
    then show ?thesis by blast
  next
    case (Suc n)
    with 2 obtain k where "trimLead rs (drop n cs) = drop k (drop n cs)" by blast
    with Suc have "trimLead rs (c # cs) = drop (Suc (k + n)) (c # cs)" by simp
    then show ?thesis by blast
  qed
qed

lemma leadWidth_trimLead: "leadWidth rs (trimLead rs s) = 0"
proof (induction rs s rule: trimLead.induct)
  case (1 rs)
  then show ?case by (induction rs) auto
next
  case (2 rs c cs)
  then show ?case by (cases "leadWidth rs (c # cs)") auto
qed

lemma leadWidth_take:
  assumes "[] \<notin> set rs" and "leadWidth rs s = 0"
  shows "leadWidth rs (take k s) = 0"
proof -
  have "take (length r) (take k s) \<noteq> r" if "r \<in> set rs" for r
  proof
    assume eq: "take (length r) (take k s) = r"
    then have "length r \<le> k"
      by (metis length_take min.cobounded2 min.absorb_iff2 min.boundedE order_refl)
    then have "take (length r) s = r" using eq by (simp add: min_def)
    with assms that show False by (simp add: leadWidth_zero_iff)
  qed
  with assms(1) show ?thesis by (simp add: leadWidth_zero_iff)
qed

lemma spaceRunes_nonempty: "[] \<notin> set spaceRunes"
  by (simp add: spaceRunes_def)

lemma TrimSpace_idem: "TrimSpace (TrimSpace s) = TrimSpace s"
proof -
  define a where "a = trimLead spaceRunes s"
  define b where "b = rev (trimLead (map rev spaceRunes) (rev a))"
  have b: "TrimSpace s = b" by (simp add: TrimSpace_def a_def b_def)
  obtain k where "trimLead (map rev spaceRunes) (rev a) = drop k (rev a)"
    using trimLead_drop by blast
  then have "b = take (length a - k) a" by (simp add: b_def rev_drop)
  moreover have "leadWidth spaceRunes a = 0" by (simp add: a_def leadWidth_trimLead)
  ultimately have "leadWidth spaceRunes b = 0"
    using leadWidth_take [OF spaceRunes_nonempty] by simp
  then have l: "trimLead spaceRunes b = b" by (rule trimLead_unchanged)
  have "leadWidth (map rev spaceRunes) (rev b) = 0" by (simp add: b_def leadWidth_trimLead)
  then have "trimLead (map rev spaceRunes) (rev b) = rev b" by (rule trimLead_unchanged)
  with l have "TrimSpace b = b" by (simp add: TrimSpace_def)
  with b show ?thesis by simp
qed

lemma TrimSpace_Nil: "TrimSpace [] = []"
  by (simp add: TrimSpace_def)

lemma set_compact_loop:
  "set (compact_loop ids seen idle) = set idle \<union> ((TrimSpace ` set ids - {[]}) - seen)"
  by (induction ids seen idle rule: compact_loop.induct) (auto simp: Let_def)

lemma distinct_compact_loop:
  "distinct idle \<Longrightarrow> set idle \<subseteq> seen \<Longrightarrow> distinct (compact_loop ids seen idle)"
  by (induction ids seen idle rule: compact_loop.induct) (auto simp: Let_def)

lemma compact_loop_fixed:
  "distinct ids \<Longrightarrow> set ids \<inter> seen = {} \<Longrightarrow> \<forall>x\<in>set ids. x \<noteq> [] \<and> TrimSpace x = x
     \<Longrightarrow> compact_loop ids seen idle = idle @ ids"
  by (induction ids seen idle rule: compact_loop.induct) (auto simp: Let_def)

lemma normalised_Nil: "normalised []"
  by (simp add: normalised_def)

lemma set_compact: "set (Idle (compact st)) = TrimSpace ` set (Idle st) - {[]}"
  by (auto simp: compact_def set_compact_loop)

lemma normalised_compact: "normalised (Idle (compact st))"
  by (auto simp: compact_def normalised_def set_compact_loop distinct_compact_loop TrimSpace_idem)

lemma compact_fixed: "normalised (Idle st) \<Longrightarrow> compact st = st"
  by (simp add: compact_def normalised_def compact_loop_fixed sorted_sort_id)

lemma compact_compact: "compact (compact st) = compact st"
  by (rule compact_fixed) (rule normalised_compact)

lemma Idle_update_eq: "(st :: targetState)\<lparr>Idle := xs\<rparr> = \<lparr>Idle = xs\<rparr>"
  by (cases st) simp

section \<open>UTF-8\<close>

lemma valid_coerce: "validUTF8 s \<Longrightarrow> coerceUTF8 s = s"
  by (induction s rule: validUTF8.induct) (auto split: nat.splits)

lemma accept_isCont: "inRange (acceptLo c) (acceptHi c) x \<Longrightarrow> isCont x"
proof -
  assume a: "inRange (acceptLo c) (acceptHi c) x"
  have "CHR 0x80 \<le> acceptLo c" by (simp add: acceptLo_def)
  moreover have "acceptHi c \<le> CHR 0xBF" by (simp add: acceptHi_def)
  ultimately show ?thesis using a unfolding isCont_def inRange_def by (meson order_trans)
qed

lemma runeLen_Cons:
  "runeLen (c # cs) =
     (if c < CHR 0x80 then 1
      else if followers c = 0 then 0
      else if followers c \<le> length cs \<and> inRange (acceptLo c) (acceptHi c) (hd cs) \<and>
              list_all isCont (take (followers c - 1) (tl cs))
        then Suc (followers c)
      else 0)"
  by (simp add: runeLen_def)

lemma runeLen_append_left:
  assumes len: "runeLen ((c # cs) @ r) = Suc m" and r: "r \<noteq> []" "\<not> isCont (hd r)"
  shows "m \<le> length cs \<and> runeLen (c # cs) = Suc m"
proof (cases "c < CHR 0x80")
  case True
  with len show ?thesis by (simp add: runeLen_Cons)
next
  case False
  let ?k = "followers c"
  from len False have k0: "?k \<noteq> 0" by (auto simp: runeLen_Cons split: if_splits)
  with len False have m: "m = ?k" and k: "?k \<le> length (cs @ r)"
    and h: "inRange (acceptLo c) (acceptHi c) (hd (cs @ r))"
    and t: "list_all isCont (take (?k - 1) (tl (cs @ r)))"
    by (auto simp: runeLen_Cons split: if_splits)
  have fit: "?k \<le> length cs"
  proof (rule ccontr)
    assume "\<not> ?k \<le> length cs"
    then have short: "length cs < ?k" by simp
    show False
    proof (cases cs)
      case Nil
      with h r have "inRange (acceptLo c) (acceptHi c) (hd r)" by simp
      with r(2) accept_isCont show False by blast
    next
      case (Cons d ds)
      with short have i: "length ds < ?k - 1" by simp
      from Cons have "tl (cs @ r) = ds @ r" by simp
      with t have "list_all isCont (take (?k - 1) (ds @ r))" by simp
      moreover from i r(1) have "hd r \<in> set (take (?k - 1) (ds @ r))"
        by (cases r) (auto simp: take_Cons' )
      ultimately have "isCont (hd r)" by (auto simp: list_all_iff)
      with r(2) show False by simp
    qed
  qed
  from fit k0 have ne: "cs \<noteq> []" by auto
  then have "hd (cs @ r) = hd cs" by simp
  moreover from ne fit have "take (?k - 1) (tl (cs @ r)) = take (?k - 1) (tl cs)"
    by (cases cs) auto
  ultimately have "runeLen (c # cs) = Suc ?k"
    using False k0 fit h t by (simp add: runeLen_Cons)
  with m fit show ?thesis by simp
qed

lemma runeLen_space: "r \<in> set spaceRunes \<Longrightarrow> runeLen (r @ t) = length r"
  by (auto simp: spaceRunes_def runeLen_Cons followers_def acceptLo_def acceptHi_def
      inRange_def isCont_def)

lemma space_head: "r \<in> set spaceRunes \<Longrightarrow> r \<noteq> [] \<and> \<not> isCont (hd r)"
  by (auto simp: spaceRunes_def isCont_def inRange_def)

lemma valid_after_space:
  assumes "validUTF8 (r @ t)" and "r \<in> set spaceRunes"
  shows "validUTF8 t"
proof -
  from space_head [OF assms(2)] obtain c cs where r: "r = c # cs" by (cases r) auto
  from runeLen_space [OF assms(2), of t] r have "runeLen (c # cs @ t) = Suc (length cs)" by simp
  with assms(1) r show ?thesis by simp
qed

lemma valid_before_space:
  assumes "validUTF8 (t @ r)" and "r \<in> set spaceRunes"
  shows "validUTF8 t"
  using assms(1)
proof (induction t rule: validUTF8.induct)
  case 1
  then show ?case by simp
next
  case (2 c cs)
  from "2.prems" obtain m where m: "runeLen ((c # cs) @ r) = Suc m"
    and v: "validUTF8 (drop m (cs @ r))"
    by (auto split: nat.splits)
  from runeLen_append_left [OF m] space_head [OF assms(2)]
  have fit: "m \<le> length cs" and rl: "runeLen (c # cs) = Suc m" by auto
  from fit v have "validUTF8 (drop m cs @ r)" by simp
  with "2.IH" [OF rl] have "validUTF8 (drop m cs)" by simp
  with rl show ?case by simp
qed

lemma leadWidth_Suc:
  "leadWidth rs s = Suc n \<Longrightarrow> \<exists>r\<in>set rs. take (length r) s = r \<and> length r = Suc n"
  by (induction rs) (auto split: if_splits)

lemma valid_trimLead:
  "set rs \<subseteq> set spaceRunes \<Longrightarrow> validUTF8 s \<Longrightarrow> validUTF8 (trimLead rs s)"
proof (induction rs s rule: trimLead.induct)
  case (1 rs)
  then show ?case by simp
next
  case (2 rs c cs)
  show ?case
  proof (cases "leadWidth rs (c # cs)")
    case 0
    with "2.prems" show ?thesis by simp
  next
    case (Suc n)
    from leadWidth_Suc [OF Suc] "2.prems"(1) obtain r where r: "r \<in> set spaceRunes"
      and tk: "take (length r) (c # cs) = r" and ln: "length r = Suc n"
      by blast
    from tk have "c # cs = r @ drop (length r) (c # cs)" by (metis append_take_drop_id)
    with ln have "c # cs = r @ drop n cs" by simp
    with "2.prems"(2) valid_after_space [OF _ r] have "validUTF8 (drop n cs)" by metis
    with "2.IH" [OF Suc "2.prems"(1)] Suc show ?thesis by simp
  qed
qed

lemma valid_trimTrail:
  "rev ` set rs \<subseteq> set spaceRunes \<Longrightarrow> validUTF8 (rev x) \<Longrightarrow> validUTF8 (rev (trimLead rs x))"
proof (induction rs x rule: trimLead.induct)
  case (1 rs)
  then show ?case by simp
next
  case (2 rs c cs)
  show ?case
  proof (cases "leadWidth rs (c # cs)")
    case 0
    with "2.prems" show ?thesis by simp
  next
    case (Suc n)
    from leadWidth_Suc [OF Suc] "2.prems"(1) obtain q where r: "rev q \<in> set spaceRunes"
      and tk: "take (length q) (c # cs) = q" and ln: "length q = Suc n"
      by blast
    from tk have "c # cs = q @ drop (length q) (c # cs)" by (metis append_take_drop_id)
    with ln have "c # cs = q @ drop n cs" by simp
    then have "rev (c # cs) = rev (drop n cs) @ rev q" by (metis rev_append)
    with "2.prems"(2) valid_before_space [OF _ r] have "validUTF8 (rev (drop n cs))" by metis
    with "2.IH" [OF Suc "2.prems"(1)] Suc show ?thesis by simp
  qed
qed

lemma valid_TrimSpace: "validUTF8 s \<Longrightarrow> validUTF8 (TrimSpace s)"
proof -
  assume "validUTF8 s"
  then have "validUTF8 (trimLead spaceRunes s)" by (rule valid_trimLead [OF subset_refl])
  then have "validUTF8 (rev (rev (trimLead spaceRunes s)))" by simp
  then show ?thesis
    unfolding TrimSpace_def by (rule valid_trimTrail [rotated]) (simp add: image_image)
qed

lemma coerce_valid_map: "\<forall>x\<in>set xs. validUTF8 x \<Longrightarrow> map coerceUTF8 xs = xs"
  by (induction xs) (simp_all add: valid_coerce)

lemma targetState_doc_valid:
  "\<forall>x\<in>set (Idle st). validUTF8 x \<Longrightarrow> targetState_doc st = Doc st"
  by (simp add: targetState_doc_def coerce_valid_map)

lemma valid_compact:
  "\<forall>x\<in>set (Idle st). validUTF8 x \<Longrightarrow> \<forall>x\<in>set (Idle (compact st)). validUTF8 x"
  by (auto simp: set_compact valid_TrimSpace)

section \<open>The tab pool, step by step\<close>

lemma newTargetStoreAt_sel:
  "path (newTargetStoreAt p) = p" "lock (newTargetStoreAt p) = p @ ''.lock''"
  "path (newTargetStoreAt p) \<noteq> lock (newTargetStoreAt p)"
  by (simp_all add: newTargetStoreAt_def)

lemma targetStore_read_eq:
  "targetStore_read s w =
     ((case nodes w (path s) of
         Missing \<Rightarrow> (\<lparr>Idle = []\<rparr>, None)
       | Faulty \<Rightarrow> (\<lparr>Idle = []\<rparr>, Some (Wrapf ''read tab state'' ErrIO))
       | File Empty \<Rightarrow> (\<lparr>Idle = []\<rparr>, Some (Wrapf ''decode tab state'' ErrSyntax))
       | File Malformed \<Rightarrow> (\<lparr>Idle = []\<rparr>, Some (Wrapf ''decode tab state'' ErrSyntax))
       | File (Doc st) \<Rightarrow> (compact st, None)),
      logged (EvRead (path s)) w)"
  by (simp add: targetStore_read_def os_ReadFile_def json_Unmarshal_def
      split: node.splits content.splits)

lemma loaded_nodes:
  "loaded s w = (case nodes w (path s) of
       Missing \<Rightarrow> Some []
     | Faulty \<Rightarrow> None
     | File Empty \<Rightarrow> None
     | File Malformed \<Rightarrow> None
     | File (Doc st) \<Rightarrow> Some (Idle (compact st)))"
  by (simp add: loaded_def targetStore_read_eq split: node.splits content.splits)

lemma normalised_loaded: "loaded s w = Some L \<Longrightarrow> normalised L"
  by (auto simp: loaded_nodes normalised_compact normalised_Nil split: node.splits content.splits)

lemma loaded_cong: "nodes w1 (path s) = nodes w (path s) \<Longrightarrow> loaded s w1 = loaded s w"
  unfolding loaded_nodes by simp

lemma read_loaded:
  "targetStore_read s w = ((state, None), w1) \<Longrightarrow>
     loaded s w = Some (Idle state) \<and> normalised (Idle state) \<and> nodes w1 = nodes w"
  by (auto simp: targetStore_read_eq loaded_nodes nodes_logged normalised_compact normalised_Nil
      split: node.splits content.splits)

lemma read_failed:
  "targetStore_read s w = ((state, Some err), w1) \<Longrightarrow> loaded s w = None \<and> nodes w1 = nodes w"
  by (auto simp: targetStore_read_eq loaded_nodes nodes_logged split: node.splits content.splits)

lemma targetStore_write_ok:
  "targetStore_write s st w = (None, w') \<Longrightarrow>
     nodes w' = (nodes w)(path s @ ''.tmp'' := Missing, path s := File (targetState_doc st))"
  by (auto simp: targetStore_write_def json_Marshal_targetState_def os_WriteFile_def os_Rename_def
      nodes_logged Let_def split: node.splits)

lemma Checkin_lock_failed:
  "tid \<noteq> [] \<Longrightarrow> flock_Lock (lock s) w = (Some err, w1) \<Longrightarrow>
     targetStore_Checkin (Some s) tid w = (Some (Wrapf ''acquire tab lock'' err), w1)"
  by (simp add: targetStore_Checkin_def)

lemma Checkin_read_failed:
  "tid \<noteq> [] \<Longrightarrow> flock_Lock (lock s) w = (None, w1) \<Longrightarrow>
     targetStore_read s w1 = ((state, Some err), w2) \<Longrightarrow>
     targetStore_Checkin (Some s) tid w = (Some err, flock_Unlock (lock s) w2)"
  by (simp add: targetStore_Checkin_def)

lemma Checkin_read_ok:
  "tid \<noteq> [] \<Longrightarrow> flock_Lock (lock s) w = (None, w1) \<Longrightarrow>
     targetStore_read s w1 = ((state, None), w2) \<Longrightarrow>
     targetStore_Checkin (Some s) tid w =
       (if tid \<in> set (Idle state) then (None, flock_Unlock (lock s) w2)
        else (case targetStore_write s (compact (state\<lparr>Idle := Idle state @ [tid]\<rparr>)) w2 of
                (err, w3) \<Rightarrow> (err, flock_Unlock (lock s) w3)))"
  by (simp add: targetStore_Checkin_def)

lemma Checkin_nodes:
  assumes ok: "targetStore_Checkin (Some s) tid w = (None, w')" and ne: "tid \<noteq> []"
    and neq: "path s \<noteq> lock s"
  shows "\<exists>L. loaded s w = Some L \<and>
          (if tid \<in> set L then nodes w' (path s) = nodes w (path s)
           else nodes w' (path s) = File (targetState_doc (compact \<lparr>Idle = L @ [tid]\<rparr>)))"
proof -
  obtain r w1 where l: "flock_Lock (lock s) w = (r, w1)" by (cases "flock_Lock (lock s) w")
  have r: "r = None"
  proof (cases r)
    case (Some err)
    with l ne ok show ?thesis using Checkin_lock_failed [of tid s w err w1] by simp
  qed simp
  from l neq have n1: "nodes w1 (path s) = nodes w (path s)" by (rule lock_nodes)
  obtain state e w2 where rd: "targetStore_read s w1 = ((state, e), w2)"
    by (cases "targetStore_read s w1") auto
  have e: "e = None"
  proof (cases e)
    case (Some err)
    with l r rd ne ok show ?thesis using Checkin_read_failed [of tid s w w1 state err w2] by simp
  qed simp
  note rl = read_loaded [OF rd [unfolded e]]
  from rl have ld: "loaded s w1 = Some (Idle state)" and n2: "nodes w2 = nodes w1"
    by simp_all
  from ld loaded_cong [OF n1] have L: "loaded s w = Some (Idle state)" by simp
  note eq = Checkin_read_ok [OF ne l [unfolded r] rd [unfolded e]]
  show ?thesis
  proof (cases "tid \<in> set (Idle state)")
    case True
    with ok eq have "w' = flock_Unlock (lock s) w2" by simp
    with n1 n2 L True show ?thesis by (simp add: nodes_unlock)
  next
    case False
    obtain e3 w3 where wr: "targetStore_write s (compact \<lparr>Idle = Idle state @ [tid]\<rparr>) w2 = (e3, w3)"
      by (cases "targetStore_write s (compact \<lparr>Idle = Idle state @ [tid]\<rparr>) w2")
    with ok eq False have "e3 = None" and w': "w' = flock_Unlock (lock s) w3"
      by (simp_all add: Idle_update_eq)
    with wr have "nodes w3 = (nodes w2)(path s @ ''.tmp'' := Missing,
        path s := File (targetState_doc (compact \<lparr>Idle = Idle state @ [tid]\<rparr>)))"
      using targetStore_write_ok by blast
    with w' have "nodes w' (path s)
        = File (targetState_doc (compact \<lparr>Idle = Idle state @ [tid]\<rparr>))"
      by (simp add: nodes_unlock)
    with L False show ?thesis by simp
  qed
qed

lemma Checkin_loaded:
  assumes ok: "targetStore_Checkin (Some s) x w = (None, w1)"
    and L0: "loaded s w = Some L0" and neq: "path s \<noteq> lock s"
    and vx: "validUTF8 x" and v0: "\<forall>y\<in>set L0. validUTF8 y"
  shows "\<exists>L1. loaded s w1 = Some L1 \<and> set L1 = set L0 \<union> ({TrimSpace x} - {[]}) \<and>
           (\<forall>y\<in>set L1. validUTF8 y) \<and>
           (nodes w1 (path s) = nodes w (path s) \<or> nodes w1 (path s) = File (Doc \<lparr>Idle = L1\<rparr>))"
proof (cases "x = []")
  case True
  with ok have "w1 = w" by (simp add: targetStore_Checkin_def)
  with True L0 v0 show ?thesis by (simp add: TrimSpace_Nil)
next
  case False
  from normalised_loaded [OF L0] have n0: "\<forall>y\<in>set L0. y \<noteq> [] \<and> TrimSpace y = y"
    by (simp add: normalised_def)
  from Checkin_nodes [OF ok False neq] L0
  have step: "if x \<in> set L0 then nodes w1 (path s) = nodes w (path s)
              else nodes w1 (path s) = File (targetState_doc (compact \<lparr>Idle = L0 @ [x]\<rparr>))"
    by simp
  show ?thesis
  proof (cases "x \<in> set L0")
    case True
    with step have same: "nodes w1 (path s) = nodes w (path s)" by simp
    from True n0 have "TrimSpace x = x" by blast
    with True have "set L0 = set L0 \<union> ({TrimSpace x} - {[]})" by auto
    with same L0 loaded_cong [OF same] v0 show ?thesis by simp
  next
    case False
    define L1 where "L1 = Idle (compact \<lparr>Idle = L0 @ [x]\<rparr>)"
    have c: "compact \<lparr>Idle = L0 @ [x]\<rparr> = \<lparr>Idle = L1\<rparr>"
      by (cases "compact \<lparr>Idle = L0 @ [x]\<rparr>") (simp add: L1_def)
    from vx v0 have "\<forall>y\<in>set (Idle \<lparr>Idle = L0 @ [x]\<rparr>). validUTF8 y" by simp
    from valid_compact [OF this] have v1: "\<forall>y\<in>set L1. validUTF8 y" by (simp add: L1_def)
    then have d: "targetState_doc \<lparr>Idle = L1\<rparr> = Doc \<lparr>Idle = L1\<rparr>"
      by (simp add: targetState_doc_valid)
    from False step have n1: "nodes w1 (path s) = File (Doc \<lparr>Idle = L1\<rparr>)" by (simp add: c d)
    then have "loaded s w1 = Some (Idle (compact \<lparr>Idle = L1\<rparr>))" by (simp add: loaded_nodes)
    also have "compact \<lparr>Idle = L1\<rparr> = \<lparr>Idle = L1\<rparr>"
      using compact_compact [of "\<lparr>Idle = L0 @ [x]\<rparr>"] by (simp add: c)
    finally have l1: "loaded s w1 = Some L1" by simp
    have "set L1 = TrimSpace ` (set L0 \<union> {x}) - {[]}" by (simp add: L1_def set_compact)
    also have "\<dots> = set L0 \<union> ({TrimSpace x} - {[]})" using n0 by force
    finally show ?thesis using l1 n1 v1 by simp
  qed
qed

lemma checkins_loaded:
  assumes "checkins (Some s) ids w = (None, w')" and "loaded s w = Some L0"
    and "path s \<noteq> lock s"
    and "\<forall>x\<in>set ids. validUTF8 x" and "\<forall>y\<in>set L0. validUTF8 y"
  shows "\<exists>L. loaded s w' = Some L \<and> set L = set L0 \<union> (TrimSpace ` set ids - {[]}) \<and>
           (nodes w' (path s) = nodes w (path s) \<or> nodes w' (path s) = File (Doc \<lparr>Idle = L\<rparr>))"
  using assms
proof (induction ids arbitrary: w L0)
  case Nil
  then show ?case by simp
next
  case (Cons x xs)
  obtain e w1 where c: "targetStore_Checkin (Some s) x w = (e, w1)"
    by (cases "targetStore_Checkin (Some s) x w")
  with Cons.prems(1) have e: "e = None" and rest: "checkins (Some s) xs w1 = (None, w')"
    by (cases e; simp)+
  from Cons.prems(4) have vx: "validUTF8 x" and vxs: "\<forall>y\<in>set xs. validUTF8 y" by simp_all
  from Checkin_loaded [OF c [unfolded e] Cons.prems(2,3) vx Cons.prems(5)] obtain L1 where
    l1: "loaded s w1 = Some L1" and s1: "set L1 = set L0 \<union> ({TrimSpace x} - {[]})" and
    v1: "\<forall>y\<in>set L1. validUTF8 y" and
    n1: "nodes w1 (path s) = nodes w (path s) \<or> nodes w1 (path s) = File (Doc \<lparr>Idle = L1\<rparr>)"
    by blast
  from Cons.IH [OF rest l1 Cons.prems(3) vxs v1] obtain L where
    l: "loaded s w' = Some L" and s2: "set L = set L1 \<union> (TrimSpace ` set xs - {[]})" and
    n2: "nodes w' (path s) = nodes w1 (path s) \<or> nodes w' (path s) = File (Doc \<lparr>Idle = L\<rparr>)"
    by blast
  have "set L = set L0 \<union> (TrimSpace ` set (x # xs) - {[]})" using s1 s2 by auto
  moreover have "nodes w' (path s) = nodes w (path s) \<or> nodes w' (path s) = File (Doc \<lparr>Idle = L\<rparr>)"
  proof (cases "nodes w' (path s) = nodes w1 (path s)")
    case True
    from loaded_cong [OF True] l l1 have "L = L1" by simp
    with True n1 show ?thesis by auto
  next
    case False
    with n2 show ?thesis by simp
  qed
  ultimately show ?case using l by blast
qed

lemma Checkin_noop:
  assumes "loaded s w = Some L" and "tid \<in> set L" and neq: "path s \<noteq> lock s"
  shows "nodes (snd (targetStore_Checkin (Some s) tid w)) (path s) = nodes w (path s)"
proof -
  from assms(1,2) normalised_loaded [OF assms(1)] have ne: "tid \<noteq> []"
    by (auto simp: normalised_def)
  obtain r w1 where l: "flock_Lock (lock s) w = (r, w1)" by (cases "flock_Lock (lock s) w")
  from l neq have n1: "nodes w1 (path s) = nodes w (path s)" by (rule lock_nodes)
  show ?thesis
  proof (cases r)
    case (Some err)
    with l ne n1 show ?thesis by (simp add: Checkin_lock_failed)
  next
    case None
    from loaded_cong [OF n1] assms(1) have l1: "loaded s w1 = Some L" by simp
    obtain state e w2 where rd: "targetStore_read s w1 = ((state, e), w2)"
      by (cases "targetStore_read s w1") auto
    show ?thesis
    proof (cases e)
      case (Some err)
      with rd read_failed l1 show ?thesis by fastforce
    next
      case e: None
      from read_loaded [OF rd [unfolded e]] l1 have "Idle state = L" "nodes w2 = nodes w1"
        by simp_all
      with Checkin_read_ok [OF ne l [unfolded None] rd [unfolded e]] assms(2) n1
      show ?thesis by (simp add: nodes_unlock)
    qed
  qed
qed

text \<open>
  C1 (as amended). After any finite sequence of check-ins of valid UTF-8 identifiers that all
  return nil, started on a state file that is absent or decodes (to valid UTF-8 strings, as
  every decoded file does), the idle sequence the store loads is sorted and free of
  duplicates, and its members are exactly the members loaded before together with the
  trimmed form of every checked-in id that is not blank; so each such id is present once,
  in trimmed form. The state file afterwards is untouched or holds exactly the loaded
  sequence; when it was absent or already normalised at the start, it is still absent (and
  nothing is idle) or holds exactly the loaded sequence. A check-in of an id that is
  already idle leaves the state file as it is.
\<close>

theorem checkins_idle_normalised:
  assumes "checkins (Some (newTargetStoreAt p)) ids w = (None, w')"
    and "loaded (newTargetStoreAt p) w = Some L0"
    and "\<forall>x\<in>set ids. validUTF8 x" and "\<forall>y\<in>set L0. validUTF8 y"
  shows "\<exists>L. loaded (newTargetStoreAt p) w' = Some L \<and> sorted L \<and> distinct L \<and>
           set L = set L0 \<union> (TrimSpace ` set ids - {[]}) \<and>
           (\<forall>x\<in>set ids. TrimSpace x \<noteq> [] \<longrightarrow> TrimSpace x \<in> set L) \<and>
           (nodes w' p = nodes w p \<or> nodes w' p = File (Doc \<lparr>Idle = L\<rparr>)) \<and>
           ((nodes w p = Missing \<or> (\<exists>st. nodes w p = File (Doc st) \<and> normalised (Idle st))) \<longrightarrow>
              (nodes w' p = Missing \<and> L = [] \<or> nodes w' p = File (Doc \<lparr>Idle = L\<rparr>))) \<and>
           (\<forall>tid\<in>set L.
              nodes (snd (targetStore_Checkin (Some (newTargetStoreAt p)) tid w')) p = nodes w' p)"
proof -
  let ?s = "newTargetStoreAt p"
  have neq: "path ?s \<noteq> lock ?s" by (rule newTargetStoreAt_sel)
  from checkins_loaded [OF assms(1,2) neq assms(3,4)] obtain L where
    l: "loaded ?s w' = Some L" and sl: "set L = set L0 \<union> (TrimSpace ` set ids - {[]})" and
    n: "nodes w' p = nodes w p \<or> nodes w' p = File (Doc \<lparr>Idle = L\<rparr>)"
    by (auto simp: newTargetStoreAt_sel)
  from normalised_loaded [OF l] have "sorted L" "distinct L" by (simp_all add: normalised_def)
  moreover from sl have "\<forall>x\<in>set ids. TrimSpace x \<noteq> [] \<longrightarrow> TrimSpace x \<in> set L" by auto
  moreover have "nodes w' p = Missing \<and> L = [] \<or> nodes w' p = File (Doc \<lparr>Idle = L\<rparr>)"
    if init: "nodes w p = Missing \<or> (\<exists>st. nodes w p = File (Doc st) \<and> normalised (Idle st))"
  proof (cases "nodes w' p = nodes w p")
    case True
    then have same: "nodes w' (path ?s) = nodes w (path ?s)" by (simp add: newTargetStoreAt_sel)
    from loaded_cong [OF same] l assms(2) have LL: "L = L0" by simp
    from init show ?thesis
    proof
      assume m: "nodes w p = Missing"
      with assms(2) have "L0 = []" by (simp add: loaded_nodes newTargetStoreAt_sel)
      with m True LL show ?thesis by simp
    next
      assume "\<exists>st. nodes w p = File (Doc st) \<and> normalised (Idle st)"
      then obtain st where st: "nodes w p = File (Doc st)" and nst: "normalised (Idle st)" by blast
      from st assms(2) compact_fixed [OF nst] have "L0 = Idle st"
        by (simp add: loaded_nodes newTargetStoreAt_sel)
      then have "st = \<lparr>Idle = L0\<rparr>" by (cases st) simp
      with st True LL show ?thesis by simp
    qed
  next
    case False
    with n show ?thesis by simp
  qed
  moreover have "\<forall>tid\<in>set L. nodes (snd (targetStore_Checkin (Some ?s) tid w')) p = nodes w' p"
    using Checkin_noop [OF l _ neq] by (simp add: newTargetStoreAt_sel)
  ultimately show ?thesis using l sl n by blast
qed

theorem checkins_idle_normalised_witness:
  "fst (checkins (Some tabsStore) [''t2'', '' t1 '', ''t2'', '' ''] emptyWorld) = None \<and>
   loaded tabsStore emptyWorld = Some [] \<and>
   list_all validUTF8 [''t2'', '' t1 '', ''t2'', '' ''] \<and>
   the (loaded tabsStore (snd (checkins (Some tabsStore) [''t2'', '' t1 '', ''t2'', '' ''] emptyWorld)))
     = [''t1'', ''t2'']"
proof -
  let ?ids = "[''t2'', '' t1 '', ''t2'', '' '']"
  let ?w' = "snd (checkins (Some tabsStore) ?ids emptyWorld)"
  have f: "fst (checkins (Some tabsStore) ?ids emptyWorld) = None" by code_simp
  then have h1: "checkins (Some (newTargetStoreAt ''tabs.json'')) ?ids emptyWorld = (None, ?w')"
    by (simp add: tabsStore_def prod_eq_iff)
  have l0: "loaded tabsStore emptyWorld = Some []" by code_simp
  then have h2: "loaded (newTargetStoreAt ''tabs.json'') emptyWorld = Some []"
    by (simp add: tabsStore_def)
  have v: "list_all validUTF8 ?ids" by code_simp
  then have h3: "\<forall>x\<in>set ?ids. validUTF8 x" by (simp only: list_all_iff)
  have h4: "\<forall>y\<in>set []. validUTF8 y" by simp
  have t: "TrimSpace ''t2'' = ''t2''" "TrimSpace '' t1 '' = ''t1''" "TrimSpace '' '' = ''''"
    by code_simp+
  from checkins_idle_normalised [OF h1 h2 h3 h4] obtain L where
    L: "loaded tabsStore ?w' = Some L" and "sorted L" and "distinct L" and
    "set L = set [] \<union> (TrimSpace ` set ?ids - {[]})"
    unfolding tabsStore_def by blast
  then have "sorted L" "distinct L" "set L = set [''t1'', ''t2'']" by (auto simp: t)
  moreover have "sorted [''t1'', ''t2'']" "distinct [''t1'', ''t2'']" by simp_all
  ultimately have "L = [''t1'', ''t2'']" by (metis sorted_distinct_set_unique)
  with L f l0 v show ?thesis by simp
qed

theorem checkins_not_verbatim_counterexample:
  "fst (checkins (Some tabsStore) ['' ''] emptyWorld) = None \<and>
   persisted tabsStore (snd (checkins (Some tabsStore) ['' ''] emptyWorld)) = Some [] \<and>
   '' '' \<noteq> '''' \<and>
   fst (checkins (Some tabsStore) [''t1''] tabsExample) = None \<and>
   persisted tabsStore (snd (checkins (Some tabsStore) [''t1''] tabsExample))
     = Some [''t2'', ''t1'', ''t1''] \<and>
   \<not> distinct [''t2'', ''t1'', ''t1''] \<and> \<not> sorted [''t2'', ''t1'', ''t1''] \<and>
   fst (checkins (Some tabsStore) [[CHR 0xFF], [CHR 0xFF]] emptyWorld) = None \<and>
   persisted tabsStore (snd (checkins (Some tabsStore) [[CHR 0xFF], [CHR 0xFF]] emptyWorld))
     = Some [[CHR 0xEF, CHR 0xBF, CHR 0xBD], [CHR 0xEF, CHR 0xBF, CHR 0xBD]] \<and>
   \<not> distinct [[CHR 0xEF, CHR 0xBF, CHR 0xBD], [CHR 0xEF, CHR 0xBF, CHR 0xBD]]"
  by code_simp

section \<open>Checkout\<close>

lemma flock_Lock_ok:
  "nodes w l \<noteq> Faulty \<Longrightarrow>
     \<exists>w1. flock_Lock l w = (None, w1) \<and> (\<forall>q. q \<noteq> l \<longrightarrow> nodes w1 q = nodes w q) \<and>
          nodes w1 l \<noteq> Faulty"
  by (auto simp: flock_Lock_def nodes_logged split: node.splits)

lemma targetStore_write_succeeds:
  "nodes w (path s @ ''.tmp'') \<noteq> Faulty \<Longrightarrow> nodes w (path s) \<noteq> Faulty \<Longrightarrow>
     \<exists>w'. targetStore_write s st w = (None, w') \<and>
          nodes w' = (nodes w)(path s @ ''.tmp'' := Missing, path s := File (targetState_doc st))"
  by (auto simp: targetStore_write_def json_Marshal_targetState_def os_WriteFile_def os_Rename_def
      nodes_logged Let_def split: node.splits)

lemma hd_sorted_Min: "sorted xs \<Longrightarrow> xs \<noteq> [] \<Longrightarrow> hd xs = Min (set xs)"
  by (cases xs) (auto intro!: Min_eqI [symmetric])

lemma Checkout_nonempty:
  assumes fl: "nodes w p = File (Doc st)" and ne: "Idle (compact st) \<noteq> []"
    and lk: "nodes w (p @ ''.lock'') \<noteq> Faulty" and tm: "nodes w (p @ ''.tmp'') \<noteq> Faulty"
  shows "\<exists>w'. targetStore_Checkout (Some (newTargetStoreAt p)) w
             = ((hd (Idle (compact st)), None), w') \<and>
           nodes w' p = File (targetState_doc \<lparr>Idle = tl (Idle (compact st))\<rparr>)"
proof -
  let ?s = "newTargetStoreAt p"
  from flock_Lock_ok [OF lk] obtain w1 where
    l: "flock_Lock (lock ?s) w = (None, w1)" and
    n1: "\<forall>q. q \<noteq> p @ ''.lock'' \<longrightarrow> nodes w1 q = nodes w q"
    by (auto simp: newTargetStoreAt_sel)
  from n1 fl have f1: "nodes w1 (path ?s) = File (Doc st)" by (simp add: newTargetStoreAt_sel)
  then have rd: "targetStore_read ?s w1 = ((compact st, None), logged (EvRead (path ?s)) w1)"
    by (simp add: targetStore_read_eq)
  let ?w2 = "logged (EvRead (path ?s)) w1"
  from n1 tm f1 have "nodes ?w2 (path ?s @ ''.tmp'') \<noteq> Faulty" "nodes ?w2 (path ?s) \<noteq> Faulty"
    by (simp_all add: nodes_logged newTargetStoreAt_sel)
  from targetStore_write_succeeds [OF this] obtain w3 where
    wr: "targetStore_write ?s \<lparr>Idle = tl (Idle (compact st))\<rparr> ?w2 = (None, w3)" and
    n3: "nodes w3 (path ?s) = File (targetState_doc \<lparr>Idle = tl (Idle (compact st))\<rparr>)"
    by fastforce
  from l rd wr ne
  have "targetStore_Checkout (Some ?s) w = ((hd (Idle (compact st)), None), flock_Unlock (lock ?s) w3)"
    by (simp add: targetStore_Checkout_def Idle_update_eq)
  with n3 show ?thesis by (simp add: nodes_unlock newTargetStoreAt_sel)
qed

text \<open>
  C2 (as amended). When the state file decodes to a sequence that is not empty after
  normalisation, and the lock file and the temporary file can be written, \<^verbatim>\<open>Checkout\<close>
  returns the lexicographically smallest identifier of the normalised sequence with a nil
  error, and the state file afterwards holds the normalised sequence without it (as
  \<^verbatim>\<open>json.Marshal\<close> writes it, which for the valid UTF-8 strings of a decoded file is the
  sequence itself). For the persisted sequence \<open>t2, t1, t1\<close>: the load gives \<open>t1, t2\<close>,
  \<^verbatim>\<open>Checkout\<close> returns \<open>t1\<close> and leaves \<open>t2\<close>.
\<close>

theorem Checkout_takes_smallest:
  assumes "nodes w p = File (Doc st)" and "Idle (compact st) \<noteq> []"
    and "nodes w (p @ ''.lock'') \<noteq> Faulty" and "nodes w (p @ ''.tmp'') \<noteq> Faulty"
  shows "fst (targetStore_Checkout (Some (newTargetStoreAt p)) w)
           = (Min (set (Idle (compact st))), None) \<and>
         persisted (newTargetStoreAt p) (snd (targetStore_Checkout (Some (newTargetStoreAt p)) w))
           = Some (map coerceUTF8 (tl (Idle (compact st)))) \<and>
         ((\<forall>x\<in>set (Idle st). validUTF8 x) \<longrightarrow>
            persisted (newTargetStoreAt p) (snd (targetStore_Checkout (Some (newTargetStoreAt p)) w))
              = Some (tl (Idle (compact st)))) \<and>
         set (tl (Idle (compact st))) = set (Idle (compact st)) - {Min (set (Idle (compact st)))} \<and>
         sorted (tl (Idle (compact st))) \<and> distinct (tl (Idle (compact st))) \<and>
         loaded tabsStore tabsExample = Some [''t1'', ''t2''] \<and>
         fst (targetStore_Checkout (Some tabsStore) tabsExample) = (''t1'', None) \<and>
         persisted tabsStore (snd (targetStore_Checkout (Some tabsStore) tabsExample)) = Some [''t2'']"
proof -
  let ?L = "Idle (compact st)"
  let ?w' = "snd (targetStore_Checkout (Some (newTargetStoreAt p)) w)"
  have norm: "sorted ?L" "distinct ?L" using normalised_compact [of st] by (simp_all add: normalised_def)
  from assms(2) obtain x xs where L: "?L = x # xs" by (cases ?L) auto
  have m: "hd ?L = Min (set ?L)" using norm(1) assms(2) by (rule hd_sorted_Min)
  from Checkout_nonempty [OF assms] obtain w' where
    c: "targetStore_Checkout (Some (newTargetStoreAt p)) w = ((hd ?L, None), w')" and
    n: "nodes w' p = File (targetState_doc \<lparr>Idle = tl ?L\<rparr>)"
    by blast
  from c m have "fst (targetStore_Checkout (Some (newTargetStoreAt p)) w) = (Min (set ?L), None)"
    by simp
  moreover from c n
  have pe: "persisted (newTargetStoreAt p) ?w' = Some (map coerceUTF8 (tl ?L))"
    by (simp add: persisted_def newTargetStoreAt_sel targetState_doc_def)
  moreover have "persisted (newTargetStoreAt p) ?w' = Some (tl ?L)"
    if v: "\<forall>x\<in>set (Idle st). validUTF8 x"
  proof -
    from valid_compact [OF v] have "\<forall>x\<in>set (tl ?L). validUTF8 x"
      by (metis list.set_sel(2) tl_Nil)
    with pe show ?thesis by (simp add: coerce_valid_map)
  qed
  moreover have "set (tl ?L) = set ?L - {Min (set ?L)}"
    using norm(2) m L by auto
  moreover have "sorted (tl ?L)" "distinct (tl ?L)" using norm L by simp_all
  moreover have "loaded tabsStore tabsExample = Some [''t1'', ''t2'']" by code_simp
  moreover have "fst (targetStore_Checkout (Some tabsStore) tabsExample) = (''t1'', None)"
    by code_simp
  moreover
  have "persisted tabsStore (snd (targetStore_Checkout (Some tabsStore) tabsExample)) = Some [''t2'']"
    by code_simp
  ultimately show ?thesis by blast
qed

theorem Checkout_takes_smallest_witness:
  "nodes tabsExample ''tabs.json'' = File (Doc \<lparr>Idle = [''t2'', ''t1'', ''t1'']\<rparr>) \<and>
   Idle (compact \<lparr>Idle = [''t2'', ''t1'', ''t1'']\<rparr>) = [''t1'', ''t2''] \<and>
   nodes tabsExample ''tabs.json.lock'' = Missing \<and>
   nodes tabsExample ''tabs.json.tmp'' = Missing \<and>
   list_all validUTF8 [''t2'', ''t1'', ''t1''] \<and>
   fst (targetStore_Checkout (Some (newTargetStoreAt ''tabs.json'')) tabsExample) = (''t1'', None) \<and>
   persisted (newTargetStoreAt ''tabs.json'')
     (snd (targetStore_Checkout (Some (newTargetStoreAt ''tabs.json'')) tabsExample)) = Some [''t2'']"
proof -
  have h1: "nodes tabsExample ''tabs.json'' = File (Doc \<lparr>Idle = [''t2'', ''t1'', ''t1'']\<rparr>)"
    by (simp add: tabsExample_def withFile_def emptyWorld_def)
  have c: "Idle (compact \<lparr>Idle = [''t2'', ''t1'', ''t1'']\<rparr>) = [''t1'', ''t2'']" by code_simp
  then have h2: "Idle (compact \<lparr>Idle = [''t2'', ''t1'', ''t1'']\<rparr>) \<noteq> []" by simp
  have m3: "nodes tabsExample (''tabs.json'' @ ''.lock'') = Missing"
    and m4: "nodes tabsExample (''tabs.json'' @ ''.tmp'') = Missing"
    by (simp_all add: tabsExample_def withFile_def emptyWorld_def)
  then have h3: "nodes tabsExample (''tabs.json'' @ ''.lock'') \<noteq> Faulty"
    and h4: "nodes tabsExample (''tabs.json'' @ ''.tmp'') \<noteq> Faulty"
    by simp_all
  have v: "list_all validUTF8 [''t2'', ''t1'', ''t1'']" by code_simp
  then have v': "\<forall>x\<in>set (Idle \<lparr>Idle = [''t2'', ''t1'', ''t1'']\<rparr>). validUTF8 x"
    by (simp add: list_all_iff)
  have k3: "nodes tabsExample ''tabs.json.lock'' = Missing"
    and k4: "nodes tabsExample ''tabs.json.tmp'' = Missing"
    using m3 m4 by simp_all
  have mn: "Min (set [''t1'', ''t2'']) = ''t1''" by simp
  note T = Checkout_takes_smallest [OF h1 h2 h3 h4]
  from T have "fst (targetStore_Checkout (Some (newTargetStoreAt ''tabs.json'')) tabsExample)
      = (Min (set (Idle (compact \<lparr>Idle = [''t2'', ''t1'', ''t1'']\<rparr>))), None)"
    by (rule conjunct1)
  with c mn
  have a: "fst (targetStore_Checkout (Some (newTargetStoreAt ''tabs.json'')) tabsExample)
      = (''t1'', None)"
    by simp
  from T v' have "persisted (newTargetStoreAt ''tabs.json'')
      (snd (targetStore_Checkout (Some (newTargetStoreAt ''tabs.json'')) tabsExample))
        = Some (tl (Idle (compact \<lparr>Idle = [''t2'', ''t1'', ''t1'']\<rparr>)))"
    by blast
  with c have b: "persisted (newTargetStoreAt ''tabs.json'')
      (snd (targetStore_Checkout (Some (newTargetStoreAt ''tabs.json'')) tabsExample)) = Some [''t2'']"
    by simp
  from h1 c k3 k4 v a b show ?thesis by blast
qed

theorem Checkout_blank_pool_counterexample:
  "persisted tabsStore blankExample = Some ['' ''] \<and> ['' ''] \<noteq> [] \<and>
   fst (targetStore_Checkout (Some tabsStore) blankExample) = ('''', None) \<and>
   persisted tabsStore (snd (targetStore_Checkout (Some tabsStore) blankExample)) = Some ['' '']"
  by code_simp

section \<open>The empty pool\<close>

lemma Checkout_empty:
  assumes empty: "loaded (newTargetStoreAt p) w = Some []"
    and lk: "nodes w (p @ ''.lock'') \<noteq> Faulty"
  shows "fst (targetStore_Checkout (Some (newTargetStoreAt p)) w) = ('''', None) \<and>
         nodes (snd (targetStore_Checkout (Some (newTargetStoreAt p)) w)) p = nodes w p"
proof -
  let ?s = "newTargetStoreAt p"
  from flock_Lock_ok [OF lk] obtain w1 where
    l: "flock_Lock (lock ?s) w = (None, w1)" and
    n1: "\<forall>q. q \<noteq> p @ ''.lock'' \<longrightarrow> nodes w1 q = nodes w q"
    by (auto simp: newTargetStoreAt_sel)
  from n1 have same: "nodes w1 (path ?s) = nodes w (path ?s)" by (simp add: newTargetStoreAt_sel)
  obtain state e w2 where rd: "targetStore_read ?s w1 = ((state, e), w2)"
    by (cases "targetStore_read ?s w1") auto
  from loaded_cong [OF same] empty have l1: "loaded ?s w1 = Some []" by simp
  have e: "e = None"
  proof (cases e)
    case (Some err)
    with rd read_failed l1 show ?thesis by fastforce
  qed simp
  from read_loaded [OF rd [unfolded e]] l1 have "Idle state = []" and n2: "nodes w2 = nodes w1"
    by simp_all
  with l rd e
  have "targetStore_Checkout (Some ?s) w = (('''', None), flock_Unlock (lock ?s) w2)"
    by (simp add: targetStore_Checkout_def)
  with n2 same show ?thesis by (simp add: nodes_unlock newTargetStoreAt_sel)
qed

lemma Clear_removes:
  "nodes w (path s) \<noteq> Faulty \<Longrightarrow>
     fst (targetStore_Clear (Some s) w) = None \<and>
     nodes (snd (targetStore_Clear (Some s) w)) = (nodes w)(path s := Missing)"
  by (auto simp: targetStore_Clear_def os_Remove_def nodes_logged split: node.splits)

text \<open>
  C7. When the lock can be taken and the state file is absent, or decodes to a sequence with
  nothing left after normalisation (the empty sequence in particular), \<^verbatim>\<open>Checkout\<close>
  returns the empty string and a nil error and leaves the state file as it is. \<^verbatim>\<open>Clear\<close>
  on a state file that can be removed returns nil, also when called twice, and a
  \<^verbatim>\<open>Checkout\<close> after it returns the empty string and nil. A nil store does the same.
\<close>

theorem Checkout_empty_pool:
  assumes "nodes w (p @ ''.lock'') \<noteq> Faulty"
  shows "((nodes w p = Missing \<or> (\<exists>st. nodes w p = File (Doc st) \<and> Idle (compact st) = [])) \<longrightarrow>
            fst (targetStore_Checkout (Some (newTargetStoreAt p)) w) = ('''', None) \<and>
            nodes (snd (targetStore_Checkout (Some (newTargetStoreAt p)) w)) p = nodes w p) \<and>
         (nodes w p \<noteq> Faulty \<longrightarrow>
            fst (targetStore_Clear (Some (newTargetStoreAt p)) w) = None \<and>
            nodes (snd (targetStore_Clear (Some (newTargetStoreAt p)) w)) p = Missing \<and>
            fst (targetStore_Clear (Some (newTargetStoreAt p))
                  (snd (targetStore_Clear (Some (newTargetStoreAt p)) w))) = None \<and>
            fst (targetStore_Checkout (Some (newTargetStoreAt p))
                  (snd (targetStore_Clear (Some (newTargetStoreAt p)) w))) = ('''', None)) \<and>
         targetStore_Checkout None w = (('''', None), w)"
proof -
  let ?s = "newTargetStoreAt p"
  have a: "fst (targetStore_Checkout (Some ?s) w) = ('''', None) \<and>
           nodes (snd (targetStore_Checkout (Some ?s) w)) p = nodes w p"
    if "nodes w p = Missing \<or> (\<exists>st. nodes w p = File (Doc st) \<and> Idle (compact st) = [])"
  proof -
    from that have "loaded ?s w = Some []" by (auto simp: loaded_nodes newTargetStoreAt_sel)
    from Checkout_empty [OF this assms] show ?thesis .
  qed
  have b: "fst (targetStore_Clear (Some ?s) w) = None \<and>
           nodes (snd (targetStore_Clear (Some ?s) w)) p = Missing \<and>
           fst (targetStore_Clear (Some ?s) (snd (targetStore_Clear (Some ?s) w))) = None \<and>
           fst (targetStore_Checkout (Some ?s) (snd (targetStore_Clear (Some ?s) w))) = ('''', None)"
    if nf: "nodes w p \<noteq> Faulty"
  proof -
    let ?w1 = "snd (targetStore_Clear (Some ?s) w)"
    from nf have "nodes w (path ?s) \<noteq> Faulty" by (simp add: newTargetStoreAt_sel)
    from Clear_removes [OF this] have c1: "fst (targetStore_Clear (Some ?s) w) = None"
      and n1: "nodes ?w1 = (nodes w)(p := Missing)"
      by (simp_all add: newTargetStoreAt_sel)
    from n1 have m: "nodes ?w1 p = Missing" by simp
    then have "nodes ?w1 (path ?s) \<noteq> Faulty" by (simp add: newTargetStoreAt_sel)
    from Clear_removes [OF this] have c2: "fst (targetStore_Clear (Some ?s) ?w1) = None" by simp
    from m have le: "loaded ?s ?w1 = Some []" by (simp add: loaded_nodes newTargetStoreAt_sel)
    from n1 assms have "nodes ?w1 (p @ ''.lock'') \<noteq> Faulty" by simp
    from Checkout_empty [OF le this] c1 c2 m show ?thesis by simp
  qed
  have c: "targetStore_Checkout None w = (('''', None), w)" by (simp add: targetStore_Checkout_def)
  from a b c show ?thesis by blast
qed

theorem Checkout_empty_pool_witness:
  "nodes tabsExample ''tabs.json.lock'' = Missing \<and>
   nodes (emptyWorld :: tabs) ''tabs.json'' = Missing \<and>
   fst (targetStore_Checkout (Some (newTargetStoreAt ''tabs.json'')) emptyWorld) = ('''', None) \<and>
   nodes tabsExample ''tabs.json'' = File (Doc \<lparr>Idle = [''t2'', ''t1'', ''t1'']\<rparr>) \<and>
   fst (targetStore_Checkout (Some (newTargetStoreAt ''tabs.json''))
         (snd (targetStore_Clear (Some (newTargetStoreAt ''tabs.json'')) tabsExample))) = ('''', None)"
proof -
  have l1: "nodes (emptyWorld :: tabs) (''tabs.json'' @ ''.lock'') \<noteq> Faulty"
    and l2: "nodes tabsExample (''tabs.json'' @ ''.lock'') \<noteq> Faulty"
    by (simp_all add: tabsExample_def withFile_def emptyWorld_def)
  have m: "nodes (emptyWorld :: tabs) ''tabs.json'' = Missing" by (simp add: emptyWorld_def)
  have f: "nodes tabsExample ''tabs.json'' = File (Doc \<lparr>Idle = [''t2'', ''t1'', ''t1'']\<rparr>)"
    and k: "nodes tabsExample ''tabs.json.lock'' = Missing"
    by (simp_all add: tabsExample_def withFile_def emptyWorld_def)
  from Checkout_empty_pool [OF l1] m Checkout_empty_pool [OF l2] f k show ?thesis by simp
qed

section \<open>The endpoint cache\<close>

lemma cdpEndpointStore_read_eq:
  "cdpEndpointStore_read s w =
     ((case nodes w (cpath s) of
         Missing \<Rightarrow> (\<lparr>Entries = []\<rparr>, None)
       | Faulty \<Rightarrow> (\<lparr>Entries = []\<rparr>, Some ErrIO)
       | File Empty \<Rightarrow> (\<lparr>Entries = []\<rparr>, None)
       | File Malformed \<Rightarrow> (\<lparr>Entries = []\<rparr>, Some ErrSyntax)
       | File (Doc st) \<Rightarrow> (st, None)),
      logged (EvRead (cpath s)) w)"
  by (simp add: cdpEndpointStore_read_def os_ReadFile_def json_Unmarshal_def
      split: node.splits content.splits)

lemma cdpEndpointStore_write_ok:
  "cdpEndpointStore_write s st w = (None, w') \<Longrightarrow>
     nodes w' = (nodes w)(cpath s @ ''.tmp'' := Missing, cpath s := File (cdpEndpointState_doc st))"
  by (auto simp: cdpEndpointStore_write_def json_Marshal_cdpEndpointState_def os_WriteFile_def
      os_Rename_def nodes_logged Let_def split: node.splits)

lemma map_of_foldl_update:
  "map_of (foldl (\<lambda>acc k. AList.update k (h k) acc) acc0 ks) x
     = (if x \<in> set ks then Some (h x) else map_of acc0 x)"
  by (induction ks arbitrary: acc0) (auto simp: update_conv')

lemma list_all_update:
  "list_all P es \<Longrightarrow> P (k, v) \<Longrightarrow> list_all P (AList.update k v es)"
  by (induction es) auto

lemma marshalled_entries:
  assumes "list_all (\<lambda>(k, v). validUTF8 k \<and> validUTF8 v) es"
  shows "\<exists>es'. cdpEndpointState_doc \<lparr>Entries = es\<rparr> = Doc \<lparr>Entries = es'\<rparr> \<and> map_of es' = map_of es"
proof -
  let ?ks = "sort (remdups (map fst es))"
  let ?h = "\<lambda>k. the (map_of es k)"
  have ks: "set ?ks = fst ` set es" by simp
  have ok: "coerceUTF8 k = k \<and> coerceUTF8 (?h k) = ?h k" if "k \<in> set ?ks" for k
  proof -
    from that ks obtain v where m: "map_of es k = Some v"
      by (metis domD dom_map_of_conv_image_fst)
    then have "(k, v) \<in> set es" by (rule map_of_SomeD)
    with assms have "validUTF8 k \<and> validUTF8 v" by (auto simp: list_all_iff)
    with m show ?thesis by (simp add: valid_coerce)
  qed
  have eq: "foldl (\<lambda>acc k. AList.update (coerceUTF8 k) (coerceUTF8 (?h k)) acc) [] ?ks
          = foldl (\<lambda>acc k. AList.update k (?h k) acc) [] ?ks"
    by (rule foldl_cong) (simp_all add: ok)
  define es' where "es' = foldl (\<lambda>acc k. AList.update k (?h k) acc) [] ?ks"
  have "map_of es' x = map_of es x" for x
  proof (cases "x \<in> fst ` set es")
    case True
    then obtain v where "map_of es x = Some v" by (metis domD dom_map_of_conv_image_fst)
    with True ks show ?thesis by (simp add: es'_def map_of_foldl_update)
  next
    case False
    then have "map_of es x = None" by (simp add: map_of_eq_None_iff)
    with False ks show ?thesis by (simp add: es'_def map_of_foldl_update)
  qed
  then have "map_of es' = map_of es" by (rule ext)
  moreover have "cdpEndpointState_doc \<lparr>Entries = es\<rparr> = Doc \<lparr>Entries = es'\<rparr>"
    using eq by (simp add: cdpEndpointState_doc_def es'_def)
  ultimately show ?thesis by blast
qed

lemma Entries_update_eq: "(st :: cdpEndpointState)\<lparr>Entries := es\<rparr> = \<lparr>Entries = es\<rparr>"
  by (cases st) simp

lemma Remember_file:
  assumes "host \<noteq> ''''" and "wsURL \<noteq> ''''"
    and ok: "cdpEndpointStore_Remember (Some s) host wsURL w = (None, w')"
  shows "\<exists>state. fst (cdpEndpointStore_read s w) = (state, None) \<and>
           nodes w' (cpath s)
             = File (cdpEndpointState_doc \<lparr>Entries = AList.update host wsURL (Entries state)\<rparr>)"
proof -
  obtain state e w1 where rd: "cdpEndpointStore_read s w = ((state, e), w1)"
    by (cases "cdpEndpointStore_read s w") auto
  have e: "e = None"
  proof (cases e)
    case (Some err)
    with rd ok assms(1,2) show ?thesis by (simp add: cdpEndpointStore_Remember_def)
  qed simp
  with rd ok assms(1,2)
  have "cdpEndpointStore_write s \<lparr>Entries = AList.update host wsURL (Entries state)\<rparr> w1 = (None, w')"
    by (simp add: cdpEndpointStore_Remember_def Entries_update_eq)
  from cdpEndpointStore_write_ok [OF this] rd e show ?thesis by simp
qed

lemma Get_map_of:
  "fst (cdpEndpointStore_read s w) = (state, None) \<Longrightarrow>
     fst (cdpEndpointStore_Get (Some s) h w)
       = (case map_of (Entries state) h of None \<Rightarrow> ('''', False, None) | Some val \<Rightarrow> (val, True, None))"
  by (auto simp: cdpEndpointStore_Get_def split: prod.splits option.splits)

text \<open>
  C3 (as amended). For a store that is not nil, a non-empty \<open>host\<close> and a non-empty
  \<open>wsURL\<close> that are valid UTF-8, and a cache whose entries are valid UTF-8 (as the entries
  of every decoded file are): when \<^verbatim>\<open>Remember(host, wsURL)\<close> returns nil,
  \<^verbatim>\<open>Get(host)\<close> on the world it leaves returns exactly \<open>wsURL\<close>, found, with a nil
  error; and \<^verbatim>\<open>Get\<close> of any other host returns what the cache held for it before.
\<close>

theorem Remember_then_Get:
  assumes "host \<noteq> ''''" and "wsURL \<noteq> ''''"
    and "validUTF8 host" and "validUTF8 wsURL"
    and "list_all (\<lambda>(k, v). validUTF8 k \<and> validUTF8 v) (Entries (fst (fst (cdpEndpointStore_read s w))))"
    and "cdpEndpointStore_Remember (Some s) host wsURL w = (None, w')"
  shows "fst (cdpEndpointStore_Get (Some s) host w') = (wsURL, True, None) \<and>
         (\<forall>h. h \<noteq> host \<longrightarrow>
            fst (cdpEndpointStore_Get (Some s) h w') = fst (cdpEndpointStore_Get (Some s) h w))"
proof -
  from Remember_file [OF assms(1,2,6)] obtain state where
    rd: "fst (cdpEndpointStore_read s w) = (state, None)" and
    f: "nodes w' (cpath s)
          = File (cdpEndpointState_doc \<lparr>Entries = AList.update host wsURL (Entries state)\<rparr>)"
    by blast
  from rd assms(5) have "list_all (\<lambda>(k, v). validUTF8 k \<and> validUTF8 v) (Entries state)" by simp
  with assms(3,4)
  have "list_all (\<lambda>(k, v). validUTF8 k \<and> validUTF8 v) (AList.update host wsURL (Entries state))"
    by (simp add: list_all_update)
  from marshalled_entries [OF this] obtain es' where
    d: "cdpEndpointState_doc \<lparr>Entries = AList.update host wsURL (Entries state)\<rparr> = Doc \<lparr>Entries = es'\<rparr>"
    and m: "map_of es' = (map_of (Entries state))(host \<mapsto> wsURL)"
    by (auto simp: update_conv')
  from f d have rd': "fst (cdpEndpointStore_read s w') = (\<lparr>Entries = es'\<rparr>, None)"
    by (simp add: cdpEndpointStore_read_eq)
  from Get_map_of [OF rd'] m
  have "fst (cdpEndpointStore_Get (Some s) host w') = (wsURL, True, None)" by simp
  moreover have "fst (cdpEndpointStore_Get (Some s) h w') = fst (cdpEndpointStore_Get (Some s) h w)"
    if "h \<noteq> host" for h
    using Get_map_of [OF rd', of h] Get_map_of [OF rd, of h] m that by simp
  ultimately show ?thesis by blast
qed

theorem Remember_then_Get_witness:
  "''127.0.0.1:9222'' \<noteq> '''' \<and> ''ws://127.0.0.1:9222/devtools/browser/abc'' \<noteq> '''' \<and>
   validUTF8 ''127.0.0.1:9222'' \<and> validUTF8 ''ws://127.0.0.1:9222/devtools/browser/abc'' \<and>
   Entries (fst (fst (cdpEndpointStore_read cacheStore emptyWorld))) = [] \<and>
   fst (cdpEndpointStore_Remember (Some cacheStore) ''127.0.0.1:9222''
          ''ws://127.0.0.1:9222/devtools/browser/abc'' emptyWorld) = None \<and>
   fst (cdpEndpointStore_Get (Some cacheStore) ''127.0.0.1:9222''
          (snd (cdpEndpointStore_Remember (Some cacheStore) ''127.0.0.1:9222''
                  ''ws://127.0.0.1:9222/devtools/browser/abc'' emptyWorld)))
     = (''ws://127.0.0.1:9222/devtools/browser/abc'', True, None)"
proof -
  let ?r = "cdpEndpointStore_Remember (Some cacheStore) ''127.0.0.1:9222''
              ''ws://127.0.0.1:9222/devtools/browser/abc'' emptyWorld"
  have f: "fst ?r = None" by code_simp
  then have h: "?r = (None, snd ?r)" by (simp add: prod_eq_iff)
  have h1: "''127.0.0.1:9222'' \<noteq> ''''" and h2: "''ws://127.0.0.1:9222/devtools/browser/abc'' \<noteq> ''''"
    by simp_all
  have v1: "validUTF8 ''127.0.0.1:9222''"
    and v2: "validUTF8 ''ws://127.0.0.1:9222/devtools/browser/abc''"
    by code_simp+
  have e: "Entries (fst (fst (cdpEndpointStore_read cacheStore emptyWorld))) = []" by code_simp
  then have v3: "list_all (\<lambda>(k, v). validUTF8 k \<and> validUTF8 v)
      (Entries (fst (fst (cdpEndpointStore_read cacheStore emptyWorld))))"
    by simp
  from Remember_then_Get [OF h1 h2 v1 v2 v3 h]
  have g: "fst (cdpEndpointStore_Get (Some cacheStore) ''127.0.0.1:9222'' (snd ?r))
      = (''ws://127.0.0.1:9222/devtools/browser/abc'', True, None)"
    by (rule conjunct1)
  from h1 h2 v1 v2 e f g show ?thesis by blast
qed

theorem Remember_invalid_utf8_counterexample:
  "[CHR 0xFF] \<noteq> '''' \<and> ''v'' \<noteq> '''' \<and>
   fst (cdpEndpointStore_Remember (Some cacheStore) [CHR 0xFF] ''v'' emptyWorld) = None \<and>
   fst (cdpEndpointStore_Get (Some cacheStore) [CHR 0xFF]
          (snd (cdpEndpointStore_Remember (Some cacheStore) [CHR 0xFF] ''v'' emptyWorld)))
     = ('''', False, None) \<and>
   fst (cdpEndpointStore_Get (Some cacheStore) [CHR 0xEF, CHR 0xBF, CHR 0xBD]
          (snd (cdpEndpointStore_Remember (Some cacheStore) [CHR 0xFF] ''v'' emptyWorld)))
     = (''v'', True, None)"
  by code_simp

text \<open>
  C10. \<^verbatim>\<open>Remember\<close> on a nil store, with an empty host or with an empty value returns nil
  and the world it was given: no file is changed and no operation is logged, so nothing was
  read or written.
\<close>

theorem Remember_empty_is_noop:
  "cdpEndpointStore_Remember None host wsURL w = (None, w) \<and>
   cdpEndpointStore_Remember sp '''' wsURL w = (None, w) \<and>
   cdpEndpointStore_Remember sp host '''' w = (None, w)"
  by (simp add: cdpEndpointStore_Remember_def split: option.splits)

section \<open>Interrupted writes\<close>

lemma write_states_dest:
  "tmp \<noteq> dest \<Longrightarrow> n \<in> set (write_states tmp dest data w) \<Longrightarrow>
     n dest = nodes w dest \<or> n dest = File data"
  by (auto simp: write_states_def split: node.splits)

lemma write_states_butlast:
  "tmp \<noteq> dest \<Longrightarrow> n \<in> set (butlast (write_states tmp dest data w)) \<Longrightarrow> n dest = nodes w dest"
  by (auto simp: write_states_def split: node.splits)

lemma targetStore_write_last:
  "nodes (snd (targetStore_write s st w))
     = last (write_states (path s @ ''.tmp'') (path s) (targetState_doc st) w)"
  by (auto simp: targetStore_write_def write_states_def json_Marshal_targetState_def os_WriteFile_def
      os_Rename_def nodes_logged Let_def split: node.splits)

lemma cdpEndpointStore_write_last:
  "nodes (snd (cdpEndpointStore_write s st w))
     = last (write_states (cpath s @ ''.tmp'') (cpath s) (cdpEndpointState_doc st) w)"
  by (auto simp: cdpEndpointStore_write_def write_states_def json_Marshal_cdpEndpointState_def os_WriteFile_def
      os_Rename_def nodes_logged Let_def split: node.splits)

lemma targetStore_write_events:
  "events (snd (targetStore_write s st w))
     = events w @ (case nodes w (path s @ ''.tmp'') of
                     Faulty \<Rightarrow> [EvWrite (path s @ ''.tmp'')]
                   | _ \<Rightarrow> [EvWrite (path s @ ''.tmp''), EvRename (path s @ ''.tmp'') (path s)])"
  by (auto simp: targetStore_write_def json_Marshal_targetState_def os_WriteFile_def
      os_Rename_def nodes_logged events_logged Let_def split: node.splits)

lemma cdpEndpointStore_write_events:
  "events (snd (cdpEndpointStore_write s st w))
     = events w @ (case nodes w (cpath s @ ''.tmp'') of
                     Faulty \<Rightarrow> [EvWrite (cpath s @ ''.tmp'')]
                   | _ \<Rightarrow> [EvWrite (cpath s @ ''.tmp''), EvRename (cpath s @ ''.tmp'') (cpath s)])"
  by (auto simp: cdpEndpointStore_write_def json_Marshal_cdpEndpointState_def os_WriteFile_def
      os_Rename_def nodes_logged events_logged Let_def split: node.splits)

lemma targetStore_write_done:
  "fst (targetStore_write s st w) = None \<Longrightarrow>
     nodes (snd (targetStore_write s st w)) (path s) = File (targetState_doc st)"
  using targetStore_write_ok [of s st w "snd (targetStore_write s st w)"]
  by (simp add: prod_eq_iff)

lemma cdpEndpointStore_write_done:
  "fst (cdpEndpointStore_write s st w) = None \<Longrightarrow>
     nodes (snd (cdpEndpointStore_write s st w)) (cpath s) = File (cdpEndpointState_doc st)"
  using cdpEndpointStore_write_ok [of s st w "snd (cdpEndpointStore_write s st w)"]
  by (simp add: prod_eq_iff)

text \<open>
  C9. Each of the two \<^verbatim>\<open>write\<close> functions writes the encoding of the new state to
  \<open>path + ".tmp"\<close>, a file other than the destination, and then renames it over the
  destination: these are the only two operations it logs, in this order. In every state the
  sequence passes through, the destination holds what it held before the write or the
  complete new encoding; before the rename it holds what it held before. The write ends in
  the last of these states, and when it returns nil the destination holds the new encoding.
\<close>

theorem writes_are_atomic:
  "path s @ ''.tmp'' \<noteq> path s \<and>
   (\<forall>n\<in>set (write_states (path s @ ''.tmp'') (path s) (targetState_doc st) w).
      n (path s) = nodes w (path s) \<or> n (path s) = File (targetState_doc st)) \<and>
   (\<forall>n\<in>set (butlast (write_states (path s @ ''.tmp'') (path s) (targetState_doc st) w)).
      n (path s) = nodes w (path s)) \<and>
   nodes (snd (targetStore_write s st w))
     = last (write_states (path s @ ''.tmp'') (path s) (targetState_doc st) w) \<and>
   events (snd (targetStore_write s st w))
     = events w @ (case nodes w (path s @ ''.tmp'') of
                     Faulty \<Rightarrow> [EvWrite (path s @ ''.tmp'')]
                   | _ \<Rightarrow> [EvWrite (path s @ ''.tmp''), EvRename (path s @ ''.tmp'') (path s)]) \<and>
   (fst (targetStore_write s st w) = None \<longrightarrow>
      nodes (snd (targetStore_write s st w)) (path s) = File (targetState_doc st)) \<and>
   cpath c @ ''.tmp'' \<noteq> cpath c \<and>
   (\<forall>n\<in>set (write_states (cpath c @ ''.tmp'') (cpath c) (cdpEndpointState_doc cst) cw).
      n (cpath c) = nodes cw (cpath c) \<or> n (cpath c) = File (cdpEndpointState_doc cst)) \<and>
   (\<forall>n\<in>set (butlast (write_states (cpath c @ ''.tmp'') (cpath c) (cdpEndpointState_doc cst) cw)).
      n (cpath c) = nodes cw (cpath c)) \<and>
   nodes (snd (cdpEndpointStore_write c cst cw))
     = last (write_states (cpath c @ ''.tmp'') (cpath c) (cdpEndpointState_doc cst) cw) \<and>
   events (snd (cdpEndpointStore_write c cst cw))
     = events cw @ (case nodes cw (cpath c @ ''.tmp'') of
                      Faulty \<Rightarrow> [EvWrite (cpath c @ ''.tmp'')]
                    | _ \<Rightarrow> [EvWrite (cpath c @ ''.tmp''), EvRename (cpath c @ ''.tmp'') (cpath c)]) \<and>
   (fst (cdpEndpointStore_write c cst cw) = None \<longrightarrow>
      nodes (snd (cdpEndpointStore_write c cst cw)) (cpath c) = File (cdpEndpointState_doc cst))"
proof (intro conjI ballI impI)
  fix n
  assume "n \<in> set (write_states (path s @ ''.tmp'') (path s) (targetState_doc st) w)"
  then show "n (path s) = nodes w (path s) \<or> n (path s) = File (targetState_doc st)"
    by (rule write_states_dest [rotated]) simp
next
  fix n
  assume "n \<in> set (butlast (write_states (path s @ ''.tmp'') (path s) (targetState_doc st) w))"
  then show "n (path s) = nodes w (path s)"
    by (rule write_states_butlast [rotated]) simp
next
  fix n
  assume "n \<in> set (write_states (cpath c @ ''.tmp'') (cpath c) (cdpEndpointState_doc cst) cw)"
  then show "n (cpath c) = nodes cw (cpath c) \<or> n (cpath c) = File (cdpEndpointState_doc cst)"
    by (rule write_states_dest [rotated]) simp
next
  fix n
  assume "n \<in> set (butlast (write_states (cpath c @ ''.tmp'') (cpath c) (cdpEndpointState_doc cst) cw))"
  then show "n (cpath c) = nodes cw (cpath c)"
    by (rule write_states_butlast [rotated]) simp
next
  assume "fst (targetStore_write s st w) = None"
  then show "nodes (snd (targetStore_write s st w)) (path s) = File (targetState_doc st)"
    by (rule targetStore_write_done)
next
  assume "fst (cdpEndpointStore_write c cst cw) = None"
  then show "nodes (snd (cdpEndpointStore_write c cst cw)) (cpath c) = File (cdpEndpointState_doc cst)"
    by (rule cdpEndpointStore_write_done)
qed (simp_all add: targetStore_write_last cdpEndpointStore_write_last
      targetStore_write_events cdpEndpointStore_write_events)

theorem writes_are_atomic_witness:
  "targetState_doc \<lparr>Idle = [''t2'']\<rparr> = Doc \<lparr>Idle = [''t2'']\<rparr> \<and>
   fst (targetStore_write tabsStore \<lparr>Idle = [''t2'']\<rparr> tabsExample) = None \<and>
   nodes (snd (targetStore_write tabsStore \<lparr>Idle = [''t2'']\<rparr> tabsExample)) (path tabsStore)
     = File (Doc \<lparr>Idle = [''t2'']\<rparr>) \<and>
   length (write_states (path tabsStore @ ''.tmp'') (path tabsStore)
             (targetState_doc \<lparr>Idle = [''t2'']\<rparr>) tabsExample) = 5 \<and>
   last (write_states (path tabsStore @ ''.tmp'') (path tabsStore)
             (targetState_doc \<lparr>Idle = [''t2'']\<rparr>) tabsExample) (path tabsStore)
     = File (Doc \<lparr>Idle = [''t2'']\<rparr>)"
proof -
  have d: "targetState_doc \<lparr>Idle = [''t2'']\<rparr> = Doc \<lparr>Idle = [''t2'']\<rparr>" by code_simp
  have f: "fst (targetStore_write tabsStore \<lparr>Idle = [''t2'']\<rparr> tabsExample) = None"
    by code_simp
  have l: "length (write_states (path tabsStore @ ''.tmp'') (path tabsStore)
             (targetState_doc \<lparr>Idle = [''t2'']\<rparr>) tabsExample) = 5"
    by (simp add: write_states_def tabsStore_def newTargetStoreAt_def tabsExample_def
        withFile_def emptyWorld_def)
  note T = writes_are_atomic [of tabsStore "\<lparr>Idle = [''t2'']\<rparr>" tabsExample
      cacheStore "\<lparr>Entries = []\<rparr>" emptyWorld]
  from T f have a: "nodes (snd (targetStore_write tabsStore \<lparr>Idle = [''t2'']\<rparr> tabsExample))
      (path tabsStore) = File (targetState_doc \<lparr>Idle = [''t2'']\<rparr>)"
    by blast
  from T have b: "nodes (snd (targetStore_write tabsStore \<lparr>Idle = [''t2'']\<rparr> tabsExample))
      = last (write_states (path tabsStore @ ''.tmp'') (path tabsStore)
                (targetState_doc \<lparr>Idle = [''t2'']\<rparr>) tabsExample)"
    by blast
  from a b d f l show ?thesis by simp
qed

section \<open>The session registry\<close>

text \<open>
  C8. After \<^verbatim>\<open>Add(s)\<close>, \<^verbatim>\<open>Get(s.id)\<close> returns \<open>s\<close> and true; after
  \<^verbatim>\<open>Remove(s.id)\<close> it returns nil and false. \<^verbatim>\<open>Remove\<close> changes the entry of that
  identifier only and no channel: every channel is as open or closed as before, and closing a
  session after a \<^verbatim>\<open>Remove\<close> does what closing it before would have done.
\<close>

theorem registry_add_get_remove:
  "Sessions_Get (sid x) (Sessions_Add x ss) = (Some x, True) \<and>
   Sessions_Get (sid x) (Sessions_Remove (sid x) (Sessions_Add x ss)) = (None, False) \<and>
   ss_s (Sessions_Remove i ss) j = (if j = i then None else ss_s ss j) \<and>
   chans (Sessions_Remove i ss) = chans ss \<and>
   Session_Close y (Sessions_Remove i ss) = map_sum (\<lambda>e. e) (Sessions_Remove i) (Session_Close y ss)"
  by (simp add: Sessions_Get_def Sessions_Add_def Sessions_Remove_def Session_Close_def
      split: chan_state.splits)

section \<open>Endpoint resolution\<close>

lemma IndexByte_None: "IndexByte s c = None \<longleftrightarrow> c \<notin> set s"
  by (induction s) auto

lemma LastIndexByte_None: "LastIndexByte s c = None \<longleftrightarrow> c \<notin> set s"
  by (simp add: LastIndexByte_def IndexByte_None split: option.splits)
    (metis IndexByte_None not_None_eq set_rev)

lemma withDefaultPort_fields:
  "Path (withDefaultPort u) = Path u" "Scheme (withDefaultPort u) = Scheme u"
  by (simp_all add: withDefaultPort_def split: sum.splits)

lemma JoinHostPort_nonempty: "JoinHostPort h p \<noteq> ''''"
  by (simp add: JoinHostPort_def)

lemma Host_withDefaultPort: "Host u \<noteq> '''' \<Longrightarrow> Host (withDefaultPort u) \<noteq> ''''"
  by (simp add: withDefaultPort_def JoinHostPort_nonempty split: sum.splits)

lemma SplitHostPort_no_colon:
  assumes "IndexByte h (CHR '':'') = None"
  shows "SplitHostPort h = Inl (Errorf ''missing port in address'')"
proof -
  from assms have "LastIndexByte h (CHR '':'') = None"
    by (simp add: LastIndexByte_None IndexByte_None)
  then show ?thesis by (simp add: SplitHostPort_def)
qed

lemma withDefaultPort_no_colon:
  "IndexByte (Host u) (CHR '':'') = None \<Longrightarrow> Host (withDefaultPort u) = Host u @ '':9222''"
  by (simp add: withDefaultPort_def SplitHostPort_no_colon JoinHostPort_def)

lemma withDefaultPort_has_port:
  "SplitHostPort (Host u) = Inr hp \<Longrightarrow> withDefaultPort u = u"
  by (simp add: withDefaultPort_def)

lemma cdpNorm_cases:
  "cdpNorm '''' = ''ws://127.0.0.1:9222''"
  "raw \<noteq> '''' \<Longrightarrow> \<not> Contains raw ''://'' \<Longrightarrow> cdpNorm raw = ''ws://'' @ raw"
  "Contains raw ''://'' \<Longrightarrow> cdpNorm raw = raw"
  by (auto simp: cdpNorm_def Let_def)

lemma fetch_nodes: "nodes (snd (fetchWebsocketDebuggerURL lib net scheme host w)) = nodes w"
  by (simp add: fetchWebsocketDebuggerURL_def Let_def nodes_logged
      split: option.splits http_reply.splits http_body.splits)

lemma fetch_fails:
  "probeFails lib net scheme host \<longleftrightarrow>
     snd (fst (fetchWebsocketDebuggerURL lib net scheme host w)) \<noteq> None"
  by (auto simp: probeFails_def fetchWebsocketDebuggerURL_def Let_def
      split: option.splits http_reply.splits http_body.splits)

lemma Get_nodes: "nodes (snd (cdpEndpointStore_Get sp host w)) = nodes w"
  by (simp add: cdpEndpointStore_Get_def cdpEndpointStore_read_eq nodes_logged
      split: option.splits node.splits content.splits)

lemma probeAndRemember_failed:
  assumes "probeFails lib net (Scheme u) (Host u)"
  shows "\<exists>err w'. probeAndRemember lib net u store w = ((URL_String lib u, Host u, Some err), w') \<and>
           fetchWebsocketDebuggerURL lib net (Scheme u) (Host u) w = (('''', Some err), w') \<and>
           nodes w' = nodes w"
proof -
  obtain ws e w1 where f: "fetchWebsocketDebuggerURL lib net (Scheme u) (Host u) w = ((ws, e), w1)"
    by (cases "fetchWebsocketDebuggerURL lib net (Scheme u) (Host u) w") auto
  with assms fetch_fails [of lib net "Scheme u" "Host u" w] obtain err where e: "e = Some err"
    by auto
  from f e have "ws = ''''"
    by (auto simp: fetchWebsocketDebuggerURL_def Let_def
        split: option.splits http_reply.splits http_body.splits if_splits)
  moreover from f fetch_nodes [of lib net "Scheme u" "Host u" w] have "nodes w1 = nodes w" by simp
  ultimately show ?thesis using f e by (simp add: probeAndRemember_def)
qed


lemma resolve_parsed:
  assumes "url_Parse lib (cdpNorm raw) = Inr u" and "Host u \<noteq> ''''"
  shows "resolveCDPEndpoint lib net raw store w =
     (if Contains (Path u) ''/devtools/browser/''
      then ((URL_String lib (withDefaultPort u), Host (withDefaultPort u), None), w)
      else (case store of
              None \<Rightarrow> probeAndRemember lib net (withDefaultPort u) store w
            | Some s \<Rightarrow>
                (case cdpEndpointStore_Get (Some s) (Host (withDefaultPort u)) w of
                   ((cached, ok, err), w1) \<Rightarrow>
                     if err = None \<and> ok then ((cached, Host (withDefaultPort u), None), w1)
                     else probeAndRemember lib net (withDefaultPort u) store w1)))"
  using assms by (simp add: resolveCDPEndpoint_def Let_def withDefaultPort_fields)

section \<open>net/url on plain URLs\<close>

lemma Contains_subset: "Contains s sub \<Longrightarrow> set sub \<subseteq> set s"
proof (induction s)
  case Nil
  then show ?case by simp
next
  case (Cons c cs)
  from Cons.prems have "take (length sub) (c # cs) = sub \<or> Contains cs sub" by simp
  then show ?case
  proof
    assume "take (length sub) (c # cs) = sub"
    then have "set sub = set (take (length sub) (c # cs))" by simp
    also have "\<dots> \<subseteq> set (c # cs)" by (rule set_take_subset)
    finally show ?thesis .
  next
    assume "Contains cs sub"
    with Cons.IH show ?thesis by auto
  qed
qed

lemma Contains_prefix: "Contains (sub @ t) sub"
proof (cases "sub @ t")
  case Nil
  then show ?thesis by simp
next
  case (Cons a l)
  have "take (length sub) (a # l) = sub" unfolding Cons [symmetric] by simp
  then have "Contains (a # l) sub" by simp
  then show ?thesis unfolding Cons .
qed

text \<open>The bytes of an authority: a host name, possibly followed by a colon and a port.\<close>

lemma host_byte_facts:
  assumes "isLetter c \<or> isDigit c \<or> c = CHR ''.'' \<or> c = CHR ''-'' \<or> c = CHR '':''"
  shows "c \<noteq> CHR ''/''" and "plainByte c" and "\<not> shouldEscape c encodeHost"
    and "c \<noteq> CHR ''[''" and "c \<noteq> CHR '']''"
  using assms by (auto simp: isLetter_def isDigit_def inRange_def plainByte_def shouldEscape_def)

lemma path_byte_facts:
  assumes "isLetter c \<or> isDigit c \<or> c \<in> set ''-._~/''"
  shows "c \<noteq> CHR '':''" and "plainByte c" and "\<not> shouldEscape c encodePath" and "c \<noteq> CHR ''*''"
  using assms by (auto simp: isLetter_def isDigit_def inRange_def plainByte_def shouldEscape_def)

lemma hostName_bytes:
  assumes "hostName h" and "c \<in> set h"
  shows "isLetter c \<or> isDigit c \<or> c = CHR ''.'' \<or> c = CHR ''-''"
  using assms by (auto simp: hostName_def list_all_iff)

lemma hostName_no_colon: "hostName h \<Longrightarrow> CHR '':'' \<notin> set h"
  using hostName_bytes by (fastforce simp: isLetter_def isDigit_def inRange_def)

lemma plainPath_bytes:
  assumes "plainPath p" and "c \<in> set p"
  shows "isLetter c \<or> isDigit c \<or> c \<in> set ''-._~/''"
  using assms by (auto simp: plainPath_def list_all_iff)

lemma escape_unchanged: "\<forall>c\<in>set s. \<not> shouldEscape c mode \<Longrightarrow> escape s mode = s"
  by (induction s) (simp_all add: escape_def)

lemma plain_Parse_authority:
  assumes a: "\<forall>c\<in>set a. isLetter c \<or> isDigit c \<or> c = CHR ''.'' \<or> c = CHR ''-'' \<or> c = CHR '':''"
    and ph: "parseHost a = Inr a" and p: "plainPath p"
  shows "plain_Parse (''ws://'' @ a @ p)
           = Inr \<lparr>Scheme = ''ws'', Opaque = '''', Host = a, Path = p, OmitHost = False\<rparr>"
proof -
  have "\<forall>c\<in>set a. plainByte c" using a host_byte_facts(2) by blast
  moreover have "\<forall>c\<in>set p. plainByte c"
    using plainPath_bytes [OF p] path_byte_facts(2) by blast
  moreover have "list_all plainByte ''ws://''" by code_simp
  ultimately have pl: "list_all plainByte (''ws://'' @ a @ p)"
    unfolding list_all_append by (simp only: list_all_iff simp_thms)
  have gs: "getScheme (''ws://'' @ a @ p) = Inr (''ws'', ''//'' @ a @ p)"
    by (simp add: getScheme_def isLetter_def isDigit_def inRange_def)
  have lo: "ToLower ''ws'' = ''ws''" by (simp add: ToLower_def inRange_def)
  from a host_byte_facts(1) have na: "\<forall>c\<in>set a. c \<noteq> CHR ''/''" by blast
  from p have hp: "p = [] \<or> \<not> hd p \<noteq> CHR ''/''" by (simp add: plainPath_def)
  have tw: "takeWhile (\<lambda>c. c \<noteq> CHR ''/'') (a @ p) = a"
    using na hp by (simp add: takeWhile_append2 takeWhile_eq_Nil_iff)
  have dw: "dropWhile (\<lambda>c. c \<noteq> CHR ''/'') (a @ p) = p"
    using na hp by (simp add: dropWhile_append2 dropWhile_eq_self_iff)
  from pl gs lo ph tw dw show ?thesis
    by (simp add: plain_Parse_def HasPrefix_def del: takeWhile_eq_all_conv dropWhile_eq_Nil_conv
        takeWhile_append dropWhile_append)
qed

lemma plain_String_authority:
  assumes a: "\<forall>c\<in>set a. isLetter c \<or> isDigit c \<or> c = CHR ''.'' \<or> c = CHR ''-'' \<or> c = CHR '':''"
    and ne: "a \<noteq> ''''" and p: "plainPath p"
  shows "plain_String \<lparr>Scheme = ''ws'', Opaque = '''', Host = a, Path = p, OmitHost = False\<rparr>
           = ''ws://'' @ a @ p"
proof -
  from a host_byte_facts(3) have ea: "escape a encodeHost = a" by (intro escape_unchanged) blast
  from plainPath_bytes [OF p] path_byte_facts(3) have ep: "escape p encodePath = p"
    by (intro escape_unchanged) blast
  from plainPath_bytes [OF p] path_byte_facts(4) have star: "p \<noteq> ''*''" by fastforce
  from p have "p = [] \<or> hd p = CHR ''/''" by (simp add: plainPath_def)
  with ea ep star ne show ?thesis by (auto simp: plain_String_def Let_def)
qed

lemma cdpNorm_no_colon:
  assumes "raw \<noteq> ''''" and "CHR '':'' \<notin> set raw"
  shows "cdpNorm raw = ''ws://'' @ raw"
proof -
  have "\<not> Contains raw ''://''" using Contains_subset [of raw "''://''"] assms(2) by auto
  with assms(1) show ?thesis by (rule cdpNorm_cases(2))
qed

lemma normalised_hostName:
  assumes h: "hostName h" and p: "plainPath p"
  shows "url_Parse plainlib (cdpNorm (h @ p))
           = Inr \<lparr>Scheme = ''ws'', Opaque = '''', Host = h, Path = p, OmitHost = False\<rparr> \<and>
         URL_String plainlib (withDefaultPort
             \<lparr>Scheme = ''ws'', Opaque = '''', Host = h, Path = p, OmitHost = False\<rparr>)
           = ''ws://'' @ h @ '':9222'' @ p \<and>
         Host (withDefaultPort
             \<lparr>Scheme = ''ws'', Opaque = '''', Host = h, Path = p, OmitHost = False\<rparr>)
           = h @ '':9222''"
proof -
  let ?u = "\<lparr>Scheme = ''ws'', Opaque = '''', Host = h, Path = p, OmitHost = False\<rparr>"
  note nc = hostName_no_colon [OF h]
  from h have ne: "h \<noteq> ''''" by (simp add: hostName_def)
  have hb: "\<forall>c\<in>set h. isLetter c \<or> isDigit c \<or> c = CHR ''.'' \<or> c = CHR ''-'' \<or> c = CHR '':''"
    using hostName_bytes [OF h] by blast
  then have hb': "\<forall>c\<in>set (h @ '':9222'').
      isLetter c \<or> isDigit c \<or> c = CHR ''.'' \<or> c = CHR ''-'' \<or> c = CHR '':''"
    by (auto simp: isDigit_def inRange_def)
  from nc have "LastIndexByte h (CHR '':'') = None" by (simp add: LastIndexByte_None)
  then have ph: "parseHost h = Inr h" by (simp add: parseHost_def)
  have "CHR '':'' \<notin> set (h @ p)"
    using nc plainPath_bytes [OF p] path_byte_facts(1) by auto
  with ne have n: "cdpNorm (h @ p) = ''ws://'' @ h @ p" by (simp add: cdpNorm_no_colon)
  from nc have "IndexByte (Host ?u) (CHR '':'') = None" by (simp add: IndexByte_None)
  then have "SplitHostPort (Host ?u) = Inl (Errorf ''missing port in address'')"
    by (rule SplitHostPort_no_colon)
  then have w: "withDefaultPort ?u = ?u\<lparr>Host := h @ '':9222''\<rparr>"
    using nc by (simp add: withDefaultPort_def JoinHostPort_def IndexByte_None)
  have s: "plain_String \<lparr>Scheme = ''ws'', Opaque = '''', Host = h @ '':9222'', Path = p,
      OmitHost = False\<rparr> = ''ws://'' @ (h @ '':9222'') @ p"
    by (rule plain_String_authority [OF hb' _ p]) simp
  show ?thesis
    using plain_Parse_authority [OF hb ph p] n s w by (simp add: plainlib_def)
qed

lemma IndexByte_append_first: "c \<notin> set a \<Longrightarrow> IndexByte (a @ c # b) c = Some (length a)"
  by (induction a) auto

lemma SplitHostPort_host_port:
  assumes h: "hostName h" and q: "list_all isDigit q"
  shows "SplitHostPort (h @ '':'' @ q) = Inr (h, q)"
proof -
  let ?s = "h @ '':'' @ q"
  from q have cq: "CHR '':'' \<notin> set q" "CHR ''['' \<notin> set q" "CHR '']'' \<notin> set q"
    by (auto simp: list_all_iff isDigit_def inRange_def)
  note nc = hostName_no_colon [OF h]
  from h obtain c cs where hc: "h = c # cs" by (cases h) (auto simp: hostName_def)
  have hb: "CHR ''['' \<notin> set h" "CHR '']'' \<notin> set h"
    using hostName_bytes [OF h] by (fastforce simp: isLetter_def isDigit_def inRange_def)+
  have "rev ?s = rev q @ CHR '':'' # rev h" by simp
  with cq(1) have "IndexByte (rev ?s) (CHR '':'') = Some (length q)"
    by (simp only: IndexByte_append_first set_rev length_rev not_False_eq_True)
  then have li: "LastIndexByte ?s (CHR '':'') = Some (length h)" by (simp add: LastIndexByte_def)
  have hd: "hd ?s \<noteq> CHR ''[''" using hc hb(1) by auto
  have tk: "take (length h) ?s = h" "drop (length h + 1) ?s = q" by simp_all
  have i1: "IndexByte h (CHR '':'') = None" using nc by (simp add: IndexByte_None)
  have i2: "IndexByte ?s (CHR ''['') = None" "IndexByte ?s (CHR '']'') = None"
    using hb cq by (simp_all add: IndexByte_None)
  show ?thesis
    unfolding SplitHostPort_def li using hd tk i1 i2 by (simp del: append.simps)
qed

lemma Contains_mid: "Contains (a @ sub @ b) sub"
  by (induction a) (simp_all add: Contains_prefix del: Contains.simps(2), simp)

lemma LastIndexByte_host_port:
  assumes "c \<notin> set q"
  shows "LastIndexByte (h @ c # q) c = Some (length h)"
proof -
  have "rev (h @ c # q) = rev q @ c # rev h" by simp
  with assms have "IndexByte (rev (h @ c # q)) c = Some (length q)"
    by (simp only: IndexByte_append_first set_rev length_rev not_False_eq_True)
  then show ?thesis by (simp add: LastIndexByte_def)
qed

lemma normalised_host_port:
  assumes h: "hostName h" and q: "list_all isDigit q" and p: "plainPath p"
  shows "url_Parse plainlib (cdpNorm (''ws://'' @ h @ '':'' @ q @ p))
           = Inr \<lparr>Scheme = ''ws'', Opaque = '''', Host = h @ '':'' @ q, Path = p,
                  OmitHost = False\<rparr> \<and>
         withDefaultPort
             \<lparr>Scheme = ''ws'', Opaque = '''', Host = h @ '':'' @ q, Path = p, OmitHost = False\<rparr>
           = \<lparr>Scheme = ''ws'', Opaque = '''', Host = h @ '':'' @ q, Path = p, OmitHost = False\<rparr> \<and>
         URL_String plainlib
             \<lparr>Scheme = ''ws'', Opaque = '''', Host = h @ '':'' @ q, Path = p, OmitHost = False\<rparr>
           = ''ws://'' @ h @ '':'' @ q @ p"
proof -
  let ?a = "h @ '':'' @ q"
  let ?u = "\<lparr>Scheme = ''ws'', Opaque = '''', Host = ?a, Path = p, OmitHost = False\<rparr>"
  from q have cq: "CHR '':'' \<notin> set q" by (auto simp: list_all_iff isDigit_def inRange_def)
  have ab: "\<forall>c\<in>set ?a. isLetter c \<or> isDigit c \<or> c = CHR ''.'' \<or> c = CHR ''-'' \<or> c = CHR '':''"
    using hostName_bytes [OF h] q by (auto simp: list_all_iff)
  have "LastIndexByte (h @ CHR '':'' # q) (CHR '':'') = Some (length h)"
    using cq by (rule LastIndexByte_host_port)
  then have ph: "parseHost ?a = Inr ?a" using q by (simp add: parseHost_def validOptionalPort_def)
  have "Contains (''ws'' @ ''://'' @ (?a @ p)) ''://''" by (rule Contains_mid)
  then have "cdpNorm (''ws'' @ ''://'' @ (?a @ p)) = ''ws'' @ ''://'' @ (?a @ p)"
    by (rule cdpNorm_cases(3))
  then have n: "cdpNorm (''ws://'' @ h @ '':'' @ q @ p) = ''ws://'' @ ?a @ p" by simp
  have "SplitHostPort (Host ?u) = Inr (h, q)" using SplitHostPort_host_port [OF h q] by simp
  then have w: "withDefaultPort ?u = ?u" by (rule withDefaultPort_has_port)
  have s: "plain_String ?u = ''ws://'' @ ?a @ p"
    by (rule plain_String_authority [OF ab _ p]) simp
  from plain_Parse_authority [OF ab ph p] n w s show ?thesis by (simp add: plainlib_def)
qed

section \<open>What the resolution returns\<close>

text \<open>
  C4 (as amended). When the normalised address parses to a URL with a non-empty host whose
  path contains \<open>/devtools/browser/\<close>, the resolution returns that URL (with the default
  port filled in) and its host key with a nil error, whatever the library, the network and
  the store are; the world it returns is the one it was given, so no file was read or
  written and no request was sent. On plain URLs this is, for a host name \<open>h\<close> and a
  path \<open>p\<close> of unreserved bytes containing the marker: the input \<open>h p\<close> resolves to
  \<open>ws://h:9222p\<close> with host key \<open>h:9222\<close>, and the input \<open>ws://h:q p\<close> with a
  port \<open>q\<close> of digits resolves to itself with host key \<open>h:q\<close>.
\<close>

theorem resolve_direct_endpoint:
  assumes "url_Parse lib (cdpNorm raw) = Inr u" and "Host u \<noteq> ''''"
    and "Contains (Path u) ''/devtools/browser/''"
  shows "resolveCDPEndpoint lib net raw store w
           = ((URL_String lib (withDefaultPort u), Host (withDefaultPort u), None), w) \<and>
         (hostName h \<and> plainPath p \<and> Contains p ''/devtools/browser/'' \<longrightarrow>
            resolveCDPEndpoint plainlib net (h @ p) store w
              = ((''ws://'' @ h @ '':9222'' @ p, h @ '':9222'', None), w) \<and>
            (list_all isDigit q \<longrightarrow>
               resolveCDPEndpoint plainlib net (''ws://'' @ h @ '':'' @ q @ p) store w
                 = ((''ws://'' @ h @ '':'' @ q @ p, h @ '':'' @ q, None), w)))"
proof -
  have g: "resolveCDPEndpoint lib net raw store w
           = ((URL_String lib (withDefaultPort u), Host (withDefaultPort u), None), w)"
    using assms by (simp add: resolve_parsed)
  have a: "resolveCDPEndpoint plainlib net (h @ p) store w
              = ((''ws://'' @ h @ '':9222'' @ p, h @ '':9222'', None), w)"
    if h: "hostName h" and p: "plainPath p" and c: "Contains p ''/devtools/browser/''"
  proof -
    let ?u = "\<lparr>Scheme = ''ws'', Opaque = '''', Host = h, Path = p, OmitHost = False\<rparr>"
    note n = normalised_hostName [OF h p]
    from h have ne: "Host ?u \<noteq> ''''" by (simp add: hostName_def)
    from c have c': "Contains (Path ?u) ''/devtools/browser/''" by simp
    from n have "url_Parse plainlib (cdpNorm (h @ p)) = Inr ?u" by (rule conjunct1)
    from resolve_parsed [OF this ne, of net store w] c'
    have "resolveCDPEndpoint plainlib net (h @ p) store w
            = ((URL_String plainlib (withDefaultPort ?u), Host (withDefaultPort ?u), None), w)"
      by (simp only: if_True)
    with n show ?thesis by (simp only:)
  qed
  have b: "resolveCDPEndpoint plainlib net (''ws://'' @ h @ '':'' @ q @ p) store w
                 = ((''ws://'' @ h @ '':'' @ q @ p, h @ '':'' @ q, None), w)"
    if h: "hostName h" and p: "plainPath p" and c: "Contains p ''/devtools/browser/''"
      and q: "list_all isDigit q"
  proof -
    let ?u = "\<lparr>Scheme = ''ws'', Opaque = '''', Host = h @ '':'' @ q, Path = p, OmitHost = False\<rparr>"
    note n = normalised_host_port [OF h q p]
    have ne: "Host ?u \<noteq> ''''" by simp
    from c have c': "Contains (Path ?u) ''/devtools/browser/''" by simp
    from n have "url_Parse plainlib (cdpNorm (''ws://'' @ h @ '':'' @ q @ p)) = Inr ?u"
      by (rule conjunct1)
    from resolve_parsed [OF this ne, of net store w] c'
    have "resolveCDPEndpoint plainlib net (''ws://'' @ h @ '':'' @ q @ p) store w
            = ((URL_String plainlib (withDefaultPort ?u), Host (withDefaultPort ?u), None), w)"
      by (simp only: if_True)
    with n show ?thesis by simp
  qed
  from g a b show ?thesis by blast
qed

theorem resolve_direct_endpoint_witness:
  "url_Parse plainlib (cdpNorm ''127.0.0.1/devtools/browser/abc'')
     = Inr \<lparr>Scheme = ''ws'', Opaque = '''', Host = ''127.0.0.1'',
            Path = ''/devtools/browser/abc'', OmitHost = False\<rparr> \<and>
   hostName ''127.0.0.1'' \<and> plainPath ''/devtools/browser/abc'' \<and>
   Contains ''/devtools/browser/abc'' ''/devtools/browser/'' \<and> list_all isDigit ''9333'' \<and>
   resolveCDPEndpoint plainlib deadNet ''127.0.0.1/devtools/browser/abc'' (Some cacheStore)
       emptyWorld
     = ((''ws://127.0.0.1:9222/devtools/browser/abc'', ''127.0.0.1:9222'', None), emptyWorld) \<and>
   resolveCDPEndpoint plainlib deadNet ''ws://127.0.0.1:9333/devtools/browser/abc''
       (Some cacheStore) emptyWorld
     = ((''ws://127.0.0.1:9333/devtools/browser/abc'', ''127.0.0.1:9333'', None), emptyWorld)"
proof -
  let ?u = "\<lparr>Scheme = ''ws'', Opaque = '''', Host = ''127.0.0.1'',
             Path = ''/devtools/browser/abc'', OmitHost = False\<rparr>"
  have p: "url_Parse plainlib (cdpNorm ''127.0.0.1/devtools/browser/abc'') = Inr ?u"
    by code_simp
  have h: "Host ?u \<noteq> ''''" by simp
  have c: "Contains (Path ?u) ''/devtools/browser/''" by code_simp
  have s: "URL_String plainlib (withDefaultPort ?u) = ''ws://127.0.0.1:9222/devtools/browser/abc''"
    by code_simp
  have k: "Host (withDefaultPort ?u) = ''127.0.0.1:9222''" by code_simp
  have hn: "hostName ''127.0.0.1''" by code_simp
  have pp: "plainPath ''/devtools/browser/abc''" by code_simp
  have cm: "Contains ''/devtools/browser/abc'' ''/devtools/browser/''" by code_simp
  have dg: "list_all isDigit ''9333''" by code_simp
  note T = resolve_direct_endpoint [OF p h c, where net = deadNet and store = "Some cacheStore"
      and w = emptyWorld and h = "''127.0.0.1''" and p = "''/devtools/browser/abc''"
      and q = "''9333''"]
  from T have "resolveCDPEndpoint plainlib deadNet ''127.0.0.1/devtools/browser/abc''
      (Some cacheStore) emptyWorld
        = ((URL_String plainlib (withDefaultPort ?u), Host (withDefaultPort ?u), None), emptyWorld)"
    by (rule conjunct1)
  with s k have r1: "resolveCDPEndpoint plainlib deadNet ''127.0.0.1/devtools/browser/abc''
      (Some cacheStore) emptyWorld
        = ((''ws://127.0.0.1:9222/devtools/browser/abc'', ''127.0.0.1:9222'', None), emptyWorld)"
    by (simp only:)
  from T hn pp cm dg have "resolveCDPEndpoint plainlib deadNet
      (''ws://'' @ ''127.0.0.1'' @ '':'' @ ''9333'' @ ''/devtools/browser/abc'')
      (Some cacheStore) emptyWorld
        = ((''ws://'' @ ''127.0.0.1'' @ '':'' @ ''9333'' @ ''/devtools/browser/abc'',
            ''127.0.0.1'' @ '':'' @ ''9333'', None), emptyWorld)"
    by blast
  then have r2: "resolveCDPEndpoint plainlib deadNet ''ws://127.0.0.1:9333/devtools/browser/abc''
       (Some cacheStore) emptyWorld
     = ((''ws://127.0.0.1:9333/devtools/browser/abc'', ''127.0.0.1:9333'', None), emptyWorld)"
    by simp
  from p hn pp cm dg r1 r2 show ?thesis by blast
qed

text \<open>
  Without a host the marker in the path is never looked at: \<open>ws:///devtools/browser/x\<close>
  parses to a URL with an empty host and the path \<open>/devtools/browser/x\<close>, and the
  resolution returns the error of line 113 with two empty strings.
\<close>

theorem resolve_direct_missing_host_counterexample:
  "url_Parse plainlib (cdpNorm ''ws:///devtools/browser/x'')
     = Inr \<lparr>Scheme = ''ws'', Opaque = '''', Host = '''', Path = ''/devtools/browser/x'',
            OmitHost = False\<rparr> \<and>
   Contains ''/devtools/browser/x'' ''/devtools/browser/'' \<and>
   fst (resolveCDPEndpoint plainlib deadNet ''ws:///devtools/browser/x'' (Some cacheStore)
          emptyWorld)
     = ('''', '''', Some (Errorf ''missing host in cdp url: ws:///devtools/browser/x''))"
  by code_simp

lemma plain_String_nonempty: "Host v \<noteq> '''' \<Longrightarrow> plain_String v \<noteq> ''''"
  by (simp add: plain_String_def Let_def)

text \<open>
  C5. When the normalised address parses to a URL with a host that is not a direct endpoint
  reference, the cache does not answer, and the probe fails in one of the listed ways (the
  request cannot be made or gets no answer, the status is not 200, the body has no
  \<^verbatim>\<open>webSocketDebuggerUrl\<close>), the resolution returns the error of the probe together with
  the normalised address as URL and its host key, which is not empty; no file is changed.
  The URL is what \<^verbatim>\<open>URL.String\<close> renders, which on a URL with a host is not empty.
\<close>

theorem resolve_probe_failure:
  assumes "url_Parse lib (cdpNorm raw) = Inr u" and "Host u \<noteq> ''''"
    and "\<not> Contains (Path u) ''/devtools/browser/''"
    and "\<not> cacheHit store (Host (withDefaultPort u)) w"
    and "probeFails lib net (Scheme u) (Host (withDefaultPort u))"
  shows "(\<exists>err w'. resolveCDPEndpoint lib net raw store w
            = ((URL_String lib (withDefaultPort u), Host (withDefaultPort u), Some err), w') \<and>
            nodes w' = nodes w) \<and>
         Host (withDefaultPort u) \<noteq> '''' \<and>
         (\<forall>v. Host v \<noteq> '''' \<longrightarrow> plain_String v \<noteq> '''')"
proof -
  let ?u = "withDefaultPort u"
  from assms(5) have pf: "probeFails lib net (Scheme ?u) (Host ?u)"
    by (simp add: withDefaultPort_fields)
  have "\<exists>err w'. resolveCDPEndpoint lib net raw store w
            = ((URL_String lib ?u, Host ?u, Some err), w') \<and> nodes w' = nodes w"
  proof (cases store)
    case None
    with probeAndRemember_failed [OF pf, of store w] assms(1-3) show ?thesis
      by (auto simp: resolve_parsed)
  next
    case (Some s)
    obtain cached ok err w1 where g: "cdpEndpointStore_Get (Some s) (Host ?u) w = ((cached, ok, err), w1)"
      by (cases "cdpEndpointStore_Get (Some s) (Host ?u) w") auto
    with assms(4) Some have miss: "\<not> (err = None \<and> ok)" by (simp add: cacheHit_def)
    from g Get_nodes [of "Some s" "Host ?u" w] have n1: "nodes w1 = nodes w" by simp
    from probeAndRemember_failed [OF pf, of store w1] obtain e w' where
      "probeAndRemember lib net ?u store w1 = ((URL_String lib ?u, Host ?u, Some e), w')"
      "nodes w' = nodes w1"
      by blast
    with Some g miss n1 assms(1-3) show ?thesis by (auto simp: resolve_parsed)
  qed
  moreover have "Host ?u \<noteq> ''''" using assms(2) by (rule Host_withDefaultPort)
  ultimately show ?thesis using plain_String_nonempty by blast
qed

theorem resolve_probe_failure_witness:
  "url_Parse plainlib (cdpNorm ''127.0.0.1'')
     = Inr \<lparr>Scheme = ''ws'', Opaque = '''', Host = ''127.0.0.1'', Path = '''', OmitHost = False\<rparr> \<and>
   \<not> cacheHit (Some cacheStore) ''127.0.0.1:9222'' emptyWorld \<and>
   probeFails plainlib deadNet ''ws'' ''127.0.0.1:9222'' \<and>
   fst (fst (resolveCDPEndpoint plainlib deadNet ''127.0.0.1'' (Some cacheStore) emptyWorld))
     = ''ws://127.0.0.1:9222'' \<and>
   fst (snd (fst (resolveCDPEndpoint plainlib deadNet ''127.0.0.1'' (Some cacheStore) emptyWorld)))
     = ''127.0.0.1:9222'' \<and>
   snd (snd (fst (resolveCDPEndpoint plainlib deadNet ''127.0.0.1'' (Some cacheStore) emptyWorld)))
     \<noteq> None"
proof -
  let ?u = "\<lparr>Scheme = ''ws'', Opaque = '''', Host = ''127.0.0.1'', Path = '''', OmitHost = False\<rparr>"
  have p: "url_Parse plainlib (cdpNorm ''127.0.0.1'') = Inr ?u" by code_simp
  have h: "Host ?u \<noteq> ''''" by simp
  have c: "\<not> Contains (Path ?u) ''/devtools/browser/''" by code_simp
  have k: "Host (withDefaultPort ?u) = ''127.0.0.1:9222''" by code_simp
  have m: "\<not> cacheHit (Some cacheStore) ''127.0.0.1:9222'' emptyWorld" by code_simp
  have f: "probeFails plainlib deadNet ''ws'' ''127.0.0.1:9222''" by code_simp
  have s: "URL_String plainlib (withDefaultPort ?u) = ''ws://127.0.0.1:9222''" by code_simp
  from m k have m': "\<not> cacheHit (Some cacheStore) (Host (withDefaultPort ?u)) emptyWorld" by simp
  from f k have f': "probeFails plainlib deadNet (Scheme ?u) (Host (withDefaultPort ?u))" by simp
  from resolve_probe_failure [OF p h c m' f'] obtain err w' where
    "resolveCDPEndpoint plainlib deadNet ''127.0.0.1'' (Some cacheStore) emptyWorld
       = ((URL_String plainlib (withDefaultPort ?u), Host (withDefaultPort ?u), Some err), w')"
    by blast
  with p m f s k show ?thesis by simp
qed






end
